theory Spec2Isabelle
  imports Main "HOL-Library.Sublist" "HOL-Library.Finite_Map" "HOL-Library.AList"
    "HOL-Library.Char_ord" "HOL-Library.List_Lexorder" "HOL-Library.Multiset"
begin

section \<open>The caching layer of glob: pattern cache, result cache, stat cache, fast path\<close>

text \<open>
  This theory embeds \<^verbatim>\<open>src/cache.ts\<close>. The module keeps three process-wide tables
  (\<^verbatim>\<open>patternCache\<close>, \<^verbatim>\<open>resultCache\<close>, \<^verbatim>\<open>statCache\<close>) and offers a classifier and a
  matcher for simple patterns. Every exported function of the module has a definition of
  the same name below. Functions that touch the tables take the state and return the new
  one; \<^verbatim>\<open>Date.now()\<close> is an explicit argument \<open>now\<close> (milliseconds); an exception is
  the \<open>Inl\<close> side of a sum; a parameter with a default value is an \<open>option\<close>, with
  \<open>None\<close> for the omitted argument.

  JavaScript strings are modelled by \<open>string\<close>, a character standing for a code unit
  below 256; the default order of
  \<^verbatim>\<open>Array.prototype.sort\<close> (code unit by code unit, a proper prefix first) is the
  lexicographic order on \<open>char list\<close>.
\<close>

subsection \<open>Regular expressions\<close>

text \<open>
  The four regular expression literals of the module use literal characters, one
  character class, \<^verbatim>\<open>\w\<close>, \<^verbatim>\<open>?\<close> and \<^verbatim>\<open>+\<close>. They are written as terms of
  \<open>regex\<close>; a string is matched by taking derivatives character by character. A class is
  the list of its characters.
\<close>

datatype regex =
    Cls "char list"
  | Eps
  | Never
  | Seq regex regex
  | Alt regex regex
  | Star regex

definition Chr :: "char \<Rightarrow> regex" where
  "Chr c = Cls [c]"

definition Opt :: "regex \<Rightarrow> regex" where
  "Opt r = Alt r Eps"

definition Plus :: "regex \<Rightarrow> regex" where
  "Plus r = Seq r (Star r)"

text \<open>\<^verbatim>\<open>\w\<close> without the unicode flag is \<^verbatim>\<open>[A-Za-z0-9_]\<close>.\<close>

definition word_chars :: "char list" where
  "word_chars = ''abcdefghijklmnopqrstuvwxyzABCDEFGHIJKLMNOPQRSTUVWXYZ0123456789_''"

definition Word :: regex where
  "Word = Cls word_chars"

fun nullable :: "regex \<Rightarrow> bool" where
  "nullable (Cls cs) = False"
| "nullable Eps = True"
| "nullable Never = False"
| "nullable (Seq r s) = (nullable r \<and> nullable s)"
| "nullable (Alt r s) = (nullable r \<or> nullable s)"
| "nullable (Star r) = True"

fun deriv :: "char \<Rightarrow> regex \<Rightarrow> regex" where
  "deriv c (Cls cs) = (if c \<in> set cs then Eps else Never)"
| "deriv c Eps = Never"
| "deriv c Never = Never"
| "deriv c (Seq r s) =
     (if nullable r then Alt (Seq (deriv c r) s) (deriv c s) else Seq (deriv c r) s)"
| "deriv c (Alt r s) = Alt (deriv c r) (deriv c s)"
| "deriv c (Star r) = Seq (deriv c r) (Star r)"

fun matches :: "regex \<Rightarrow> string \<Rightarrow> bool" where
  "matches r [] = nullable r"
| "matches r (c # cs) = matches (deriv c r) cs"

text \<open>
  The meaning of a regular expression, against which the matcher is verified: the set of
  the strings it denotes.
\<close>

inductive_set star :: "string set \<Rightarrow> string set" for L :: "string set" where
  star_nil: "[] \<in> star L"
| star_app: "u \<in> L \<Longrightarrow> v \<in> star L \<Longrightarrow> u @ v \<in> star L"

fun lang :: "regex \<Rightarrow> string set" where
  "lang (Cls cs) = {[c] |c. c \<in> set cs}"
| "lang Eps = {[]}"
| "lang Never = {}"
| "lang (Seq r s) = {u @ v |u v. u \<in> lang r \<and> v \<in> lang s}"
| "lang (Alt r s) = lang r \<union> lang s"
| "lang (Star r) = star (lang r)"

text \<open>
  \<open>test_whole r s\<close> is \<^verbatim>\<open>/^r$/.test(s)\<close>: with no flag, \<^verbatim>\<open>^\<close> and \<^verbatim>\<open>$\<close> match at
  the two ends of the input only. \<open>test_anywhere r s\<close> is \<^verbatim>\<open>/r/.test(s)\<close>: some
  substring of \<open>s\<close> matches. \<open>exec_group pre grp s\<close> is capture 1 of
  \<^verbatim>\<open>/^pre(grp)$/.exec(s)\<close>, \<open>None\<close> when \<^verbatim>\<open>exec\<close> returns \<^verbatim>\<open>null\<close>: the input is cut
  in two so that \<open>pre\<close> matches the first part and \<open>grp\<close> the rest. Both uses in the
  module have a literal \<open>pre\<close>, so at most one cut qualifies.
\<close>

fun splits :: "string \<Rightarrow> (string \<times> string) list" where
  "splits [] = [([], [])]"
| "splits (c # cs) = ([], c # cs) # map (\<lambda>(u, v). (c # u, v)) (splits cs)"

definition test_whole :: "regex \<Rightarrow> string \<Rightarrow> bool" where
  "test_whole r s = matches r s"

definition test_anywhere :: "regex \<Rightarrow> string \<Rightarrow> bool" where
  "test_anywhere r s = list_ex (\<lambda>t. list_ex (matches r) (prefixes t)) (suffixes s)"

definition exec_group :: "regex \<Rightarrow> regex \<Rightarrow> string \<Rightarrow> string option" where
  "exec_group pre grp s =
     map_option snd (find (\<lambda>(u, v). matches pre u \<and> matches grp v) (splits s))"

text \<open>\<^verbatim>\<open>String.prototype.endsWith\<close>, with the search string ending at the end of \<open>s\<close>.\<close>

definition endsWith :: "string \<Rightarrow> string \<Rightarrow> bool" where
  "endsWith s searchString =
     (length searchString \<le> length s \<and>
      drop (length s - length searchString) s = searchString)"

subsection \<open>The fast path\<close>

text \<open>
  \<^verbatim>\<open>isSimplePattern\<close> tests \<^verbatim>\<open>/^\*\*?\.\w+$/\<close> and then \<^verbatim>\<open>/[?[\]{}()+@!]/\<close>.
  \<^verbatim>\<open>fastPathMatch\<close> tries \<^verbatim>\<open>/^\*\.(\w+)$/\<close>, then \<^verbatim>\<open>/^\*\*\.(\w+)$/\<close>, and returns
  \<^verbatim>\<open>null\<close> (here \<open>None\<close>) when neither matches.
\<close>

definition isSimplePattern :: "string \<Rightarrow> bool" where
  "isSimplePattern pattern =
     (if test_whole (Seq (Chr CHR ''*'') (Seq (Opt (Chr CHR ''*'')) (Seq (Chr CHR ''.'') (Plus Word))))
           pattern
      then True
      else if \<not> test_anywhere (Cls ''?[]{}()+@!'') pattern
      then True
      else False)"

definition fastPathMatch :: "string \<Rightarrow> string \<Rightarrow> bool option" where
  "fastPathMatch pattern filename =
     (case exec_group (Seq (Chr CHR ''*'') (Chr CHR ''.'')) (Plus Word) pattern of
        Some ext \<Rightarrow> Some (endsWith filename (''.'' @ ext))
      | None \<Rightarrow>
          (case exec_group (Seq (Chr CHR ''*'') (Seq (Chr CHR ''*'') (Chr CHR ''.''))) (Plus Word)
                  pattern of
             Some ext \<Rightarrow> Some (endsWith filename (''.'' @ ext))
           | None \<Rightarrow> None))"

subsection \<open>JavaScript values and plain objects\<close>

text \<open>
  An option value has type \<^verbatim>\<open>any\<close>, so the model carries every kind of value that
  \<^verbatim>\<open>typeof\<close> tells apart. Objects and functions are opaque references: the module only
  asks for their type. Numbers are the integers and the three values that are not finite;
  the module does no arithmetic on an option value, it tests it for truthiness and prints
  it into a key. \<open>properties\<close> is a plain object: its own enumerable string-keyed
  properties in creation order, with distinct keys (\<open>wf_object\<close>).
\<close>

datatype number = Finite int | NaN | PosInfinity | NegInfinity

datatype jsval =
    JUndefined
  | JNull
  | JBoolean bool
  | JNumber number
  | JString string
  | JBigInt int
  | JSymbol nat
  | JObject nat
  | JFunction nat

fun typeof :: "jsval \<Rightarrow> string" where
  "typeof JUndefined = ''undefined''"
| "typeof JNull = ''object''"
| "typeof (JBoolean b) = ''boolean''"
| "typeof (JNumber n) = ''number''"
| "typeof (JString s) = ''string''"
| "typeof (JBigInt i) = ''bigint''"
| "typeof (JSymbol n) = ''symbol''"
| "typeof (JObject r) = ''object''"
| "typeof (JFunction r) = ''function''"

text \<open>\<^verbatim>\<open>ToBoolean\<close>, which decides \<^verbatim>\<open>||\<close> and \<^verbatim>\<open>!\<close>.\<close>

fun truthy :: "jsval \<Rightarrow> bool" where
  "truthy JUndefined = False"
| "truthy JNull = False"
| "truthy (JBoolean b) = b"
| "truthy (JNumber n) = (n \<noteq> Finite 0 \<and> n \<noteq> NaN)"
| "truthy (JString s) = (s \<noteq> [])"
| "truthy (JBigInt i) = (i \<noteq> 0)"
| "truthy (JSymbol n) = True"
| "truthy (JObject r) = True"
| "truthy (JFunction r) = True"

datatype error = TypeError string | OtherError string

type_synonym properties = "(string \<times> jsval) list"

definition wf_object :: "properties \<Rightarrow> bool" where
  "wf_object obj = distinct (map fst obj)"

text \<open>
  \<^verbatim>\<open>Object.keys\<close> lists the keys that are array indices (canonical decimal numerals
  below \<open>2^32 - 1\<close>) in ascending numeric order, then the other keys in creation order.
\<close>

definition is_digit :: "char \<Rightarrow> bool" where
  "is_digit c = (c \<in> set ''0123456789'')"

definition decimal_value :: "string \<Rightarrow> int" where
  "decimal_value s = foldl (\<lambda>n c. 10 * n + (of_char c - 48)) 0 s"

definition is_array_index :: "string \<Rightarrow> bool" where
  "is_array_index k =
     (k \<noteq> [] \<and> list_all is_digit k \<and> (k = ''0'' \<or> hd k \<noteq> CHR ''0'') \<and>
      decimal_value k < 4294967295)"

definition Object_keys :: "properties \<Rightarrow> string list" where
  "Object_keys obj =
     (let ks = map fst obj
      in sort_key decimal_value (filter is_array_index ks) @
         filter (\<lambda>k. \<not> is_array_index k) ks)"

text \<open>
  \<open>prop_get obj key\<close> is \<^verbatim>\<open>obj[key]\<close> for an own property; the module reads only keys
  that \<^verbatim>\<open>Object.keys\<close> returned. \<open>prop_set obj key v\<close> is \<^verbatim>\<open>obj[key] = v\<close> on an
  accumulator created by \<^verbatim>\<open>{}\<close>: an existing property keeps its place, a new one goes
  last. The key \<^verbatim>\<open>__proto__\<close> reaches the accessor inherited from
  \<^verbatim>\<open>Object.prototype\<close>, which never creates an own property; the module assigns
  only values that are neither an object nor \<^verbatim>\<open>null\<close>, and the accessor ignores those.
\<close>

definition prop_get :: "properties \<Rightarrow> string \<Rightarrow> jsval" where
  "prop_get obj key = (case map_of obj key of Some v \<Rightarrow> v | None \<Rightarrow> JUndefined)"

definition prop_set :: "properties \<Rightarrow> string \<Rightarrow> jsval \<Rightarrow> properties" where
  "prop_set obj key v = (if key = ''__proto__'' then obj else AList.update key v obj)"

subsection \<open>\<^verbatim>\<open>Array.prototype.join\<close> and \<^verbatim>\<open>JSON.stringify\<close>\<close>

fun join :: "string \<Rightarrow> string list \<Rightarrow> string" where
  "join sep [] = []"
| "join sep [x] = x"
| "join sep (x # y # ys) = x @ sep @ join sep (y # ys)"

text \<open>
  \<^verbatim>\<open>QuoteJSONString\<close>: the two-character escapes, \<^verbatim>\<open>\u00XX\<close> for the other control
  characters, every other character as it is.
\<close>

definition hex_digit :: "nat \<Rightarrow> char" where
  "hex_digit n = ''0123456789abcdef'' ! (n mod 16)"

definition json_quote_char :: "char \<Rightarrow> string" where
  "json_quote_char c =
     (if c = CHR 0x08 then [CHR 0x5C, CHR ''b'']
      else if c = CHR 0x09 then [CHR 0x5C, CHR ''t'']
      else if c = CHR 0x0A then [CHR 0x5C, CHR ''n'']
      else if c = CHR 0x0C then [CHR 0x5C, CHR ''f'']
      else if c = CHR 0x0D then [CHR 0x5C, CHR ''r'']
      else if c = CHR 0x22 then [CHR 0x5C, CHR 0x22]
      else if c = CHR 0x5C then [CHR 0x5C, CHR 0x5C]
      else if (of_char c :: nat) < 32
        then [CHR 0x5C, CHR ''u'', CHR ''0'', CHR ''0'',
              hex_digit (of_char c div 16), hex_digit (of_char c)]
      else [c])"

definition json_quote :: "string \<Rightarrow> string" where
  "json_quote s = [CHR 0x22] @ concat (map json_quote_char s) @ [CHR 0x22]"

text \<open>
  An integer is printed in decimal, as \<^verbatim>\<open>Number.prototype.toString\<close> prints every integer
  of magnitude below \<open>10^21\<close>.
\<close>

fun decimal :: "nat \<Rightarrow> string" where
  "decimal n =
     (if n < 10 then [char_of (48 + n)] else decimal (n div 10) @ [char_of (48 + n mod 10)])"

definition number_to_string :: "int \<Rightarrow> string" where
  "number_to_string i = (if i < 0 then ''-'' @ decimal (nat (- i)) else decimal (nat i))"

text \<open>
  \<^verbatim>\<open>SerializeJSONProperty\<close> on a property value: \<open>Inr None\<close> when the property is left
  out (\<^verbatim>\<open>undefined\<close>, a symbol, a function), \<open>Inl\<close> for the \<^verbatim>\<open>TypeError\<close> that a BigInt
  raises. A number that is not finite prints as \<^verbatim>\<open>null\<close>. An object value would be
  printed from its own properties, which the model does not carry: \<open>json_value\<close> has no
  equation for it, and \<open>serializableOpts_primitive\<close> and \<open>createCacheKey_opts_primitive\<close>
  below show that both key derivations drop every object before they print.
\<close>

fun json_value :: "jsval \<Rightarrow> error + string option" where
  "json_value JUndefined = Inr None"
| "json_value JNull = Inr (Some ''null'')"
| "json_value (JBoolean b) = Inr (Some (if b then ''true'' else ''false''))"
| "json_value (JNumber (Finite i)) = Inr (Some (number_to_string i))"
| "json_value (JNumber n) = Inr (Some ''null'')"
| "json_value (JString s) = Inr (Some (json_quote s))"
| "json_value (JBigInt i) = Inl (TypeError ''Do not know how to serialize a BigInt'')"
| "json_value (JSymbol n) = Inr None"
| "json_value (JFunction r) = Inr None"

fun json_members :: "properties \<Rightarrow> string list \<Rightarrow> error + string list" where
  "json_members obj [] = Inr []"
| "json_members obj (k # ks) =
     (case json_value (prop_get obj k) of
        Inl e \<Rightarrow> Inl e
      | Inr None \<Rightarrow> json_members obj ks
      | Inr (Some str) \<Rightarrow>
          (case json_members obj ks of
             Inl e \<Rightarrow> Inl e
           | Inr ms \<Rightarrow> Inr ((json_quote k @ '':'' @ str) # ms)))"

definition json_object :: "properties \<Rightarrow> error + string" where
  "json_object obj =
     (case json_members obj (Object_keys obj) of
        Inl e \<Rightarrow> Inl e
      | Inr ms \<Rightarrow> Inr (''{'' @ join '','' ms @ ''}''))"

subsection \<open>The state: the three tables, the arrays, the matchers built so far\<close>

text \<open>
  A \<^verbatim>\<open>Map\<close> with string keys is a finite map; its \<^verbatim>\<open>size\<close> is the number of its keys.
  A \<^verbatim>\<open>string[]\<close> is a reference into \<open>arrays\<close>, the store of array contents, so that two
  names of one array see each other's writes. \<open>next_ref\<close> is the first unused reference;
  it also numbers the matcher instances, which gives each instance its identity.
  \<open>constructed\<close> records every call of the \<^verbatim>\<open>Minimatch\<close> constructor, in order.
\<close>

record Minimatch =
  mm_id :: nat
  mm_pattern :: string
  mm_options :: properties

record CachedResult =
  results :: nat
  timestamp :: int

record state =
  patternCache :: "(string, Minimatch) fmap"
  resultCache :: "(string, CachedResult) fmap"
  statCache :: "(string, jsval) fmap"
  arrays :: "nat \<Rightarrow> string list"
  next_ref :: nat
  constructed :: "(string \<times> properties) list"

definition initial_state :: state where
  "initial_state =
     \<lparr>patternCache = fmempty, resultCache = fmempty, statCache = fmempty,
      arrays = (\<lambda>r. []), next_ref = 0, constructed = []\<rparr>"

definition DEFAULT_TTL :: int where
  "DEFAULT_TTL = 5000"

definition map_size :: "('k, 'v) fmap \<Rightarrow> nat" where
  "map_size m = fcard (fmdom m)"

text \<open>
  \<open>new_array xs\<close> allocates an array literal or a spread copy. \<open>array_assign r xs\<close> is
  any in-place change of the array \<open>r\<close> (\<^verbatim>\<open>push\<close>, \<^verbatim>\<open>sort\<close>, an indexed write, ...)
  that leaves it with the contents \<open>xs\<close>.
\<close>

definition new_array :: "string list \<Rightarrow> state \<Rightarrow> nat \<times> state" where
  "new_array xs s =
     (next_ref s, s\<lparr>arrays := (arrays s)(next_ref s := xs), next_ref := Suc (next_ref s)\<rparr>)"

definition array_assign :: "nat \<Rightarrow> string list \<Rightarrow> state \<Rightarrow> state" where
  "array_assign r xs s = s\<lparr>arrays := (arrays s)(r := xs)\<rparr>"

text \<open>
  The \<^verbatim>\<open>Minimatch\<close> class belongs to another package. Its constructor is the parameter
  \<open>engine\<close>, which tells for a pattern and its options whether the constructor throws,
  and what. A call that does not throw returns a new instance.
\<close>

definition new_Minimatch ::
  "(string \<Rightarrow> properties \<Rightarrow> error option) \<Rightarrow> string \<Rightarrow> properties \<Rightarrow> state
    \<Rightarrow> (error + Minimatch) \<times> state" where
  "new_Minimatch engine pattern options s =
     (let s' = s\<lparr>constructed := constructed s @ [(pattern, options)]\<rparr>
      in case engine pattern options of
           Some e \<Rightarrow> (Inl e, s')
         | None \<Rightarrow>
             (Inr \<lparr>mm_id = next_ref s, mm_pattern = pattern, mm_options = options\<rparr>,
              s'\<lparr>next_ref := Suc (next_ref s)\<rparr>))"

subsection \<open>The pattern cache\<close>

text \<open>
  \<open>serializableOpts\<close> and \<open>cacheKey\<close> are the two local constants of
  \<^verbatim>\<open>getCachedPattern\<close>: the chain \<^verbatim>\<open>Object.keys(options).filter(...).sort().reduce(...)\<close>
  and \<^verbatim>\<open>JSON.stringify({ pattern, options: serializableOpts })\<close>. A stored matcher is an
  object, so \<^verbatim>\<open>!cached\<close> holds exactly when the table has no entry.
\<close>

definition serializableOpts :: "properties \<Rightarrow> properties" where
  "serializableOpts options =
     foldl (\<lambda>acc key. prop_set acc key (prop_get options key)) []
       (sort (filter (\<lambda>key. let val = prop_get options key
                             in typeof val \<noteq> ''object'' \<and> typeof val \<noteq> ''function'')
                (Object_keys options)))"

definition cacheKey :: "string \<Rightarrow> properties \<Rightarrow> error + string" where
  "cacheKey pattern options =
     (case json_object (serializableOpts options) of
        Inl e \<Rightarrow> Inl e
      | Inr optsJson \<Rightarrow>
          Inr (''{'' @ join '','' [json_quote ''pattern'' @ '':'' @ json_quote pattern,
                                    json_quote ''options'' @ '':'' @ optsJson] @ ''}''))"

definition getCachedPattern ::
  "(string \<Rightarrow> properties \<Rightarrow> error option) \<Rightarrow> string \<Rightarrow> properties \<Rightarrow> state
    \<Rightarrow> (error + Minimatch) \<times> state" where
  "getCachedPattern engine pattern options s =
     (case cacheKey pattern options of
        Inl e \<Rightarrow> (Inl e, s)
      | Inr key \<Rightarrow>
          (case fmlookup (patternCache s) key of
             Some cached \<Rightarrow> (Inr cached, s)
           | None \<Rightarrow>
               (case new_Minimatch engine pattern options s of
                  (Inl e, s') \<Rightarrow> (Inl e, s')
                | (Inr cached, s') \<Rightarrow>
                    (Inr cached, s'\<lparr>patternCache := fmupd key cached (patternCache s')\<rparr>))))"

definition clearPatternCache :: "state \<Rightarrow> state" where
  "clearPatternCache s = s\<lparr>patternCache := fmempty\<rparr>"

definition getPatternCacheSize :: "state \<Rightarrow> nat" where
  "getPatternCacheSize s = map_size (patternCache s)"

subsection \<open>The result cache\<close>

text \<open>
  \<^verbatim>\<open>getCachedResults\<close> returns the stored array itself (its reference) or \<^verbatim>\<open>null\<close>
  (\<open>None\<close>); \<^verbatim>\<open>setCachedResults\<close> stores a spread copy of its argument. A stored entry is
  an object, so \<^verbatim>\<open>!cached\<close> holds exactly when the table has no entry. Times are whole
  milliseconds, as \<^verbatim>\<open>Date.now()\<close> returns them, and so is the time to live (against a
  whole age, a fractional one compares like the whole number below it).
\<close>

definition getCachedResults :: "int \<Rightarrow> string \<Rightarrow> int option \<Rightarrow> state \<Rightarrow> nat option \<times> state" where
  "getCachedResults now key ttl_arg s =
     (let ttl = (case ttl_arg of None \<Rightarrow> DEFAULT_TTL | Some t \<Rightarrow> t)
      in case fmlookup (resultCache s) key of
           None \<Rightarrow> (None, s)
         | Some cached \<Rightarrow>
             (let age = now - timestamp cached
              in if age > ttl
                 then (None, s\<lparr>resultCache := fmdrop key (resultCache s)\<rparr>)
                 else (Some (results cached), s)))"

definition setCachedResults :: "int \<Rightarrow> string \<Rightarrow> nat \<Rightarrow> state \<Rightarrow> state" where
  "setCachedResults now key res s =
     (case new_array (arrays s res) s of
        (copy, s') \<Rightarrow>
          s'\<lparr>resultCache := fmupd key \<lparr>results = copy, timestamp = now\<rparr> (resultCache s')\<rparr>)"

definition clearResultCache :: "state \<Rightarrow> state" where
  "clearResultCache s = s\<lparr>resultCache := fmempty\<rparr>"

definition getResultCacheSize :: "state \<Rightarrow> nat" where
  "getResultCacheSize s = map_size (resultCache s)"

text \<open>
  \<^verbatim>\<open>createCacheKey\<close> takes a string or an array. \<^verbatim>\<open>pattern.sort()\<close> sorts the array it
  is called on and returns that same array, so the sorted contents are written back to the
  reference the caller passed. The options have type \<^verbatim>\<open>any\<close>: \<^verbatim>\<open>Object.keys\<close>
  throws a \<^verbatim>\<open>TypeError\<close> on \<^verbatim>\<open>null\<close> and \<^verbatim>\<open>undefined\<close>, after the array has been
  sorted, and reads every other value through its own enumerable properties.
  \<open>createCacheKey_opts\<close> is the pair of local constants \<^verbatim>\<open>optKeys\<close> and
  \<^verbatim>\<open>opts\<close>.
\<close>

datatype pattern_arg = PatternString string | PatternArray nat

datatype options_arg = NullOrUndefined | WithProperties properties

definition createCacheKey_opts :: "properties \<Rightarrow> properties" where
  "createCacheKey_opts options =
     (let optKeys = sort (Object_keys options)
      in foldl (\<lambda>acc key.
                  if typeof (prop_get options key) \<noteq> ''function'' \<and>
                     typeof (prop_get options key) \<noteq> ''object''
                  then prop_set acc key (prop_get options key)
                  else acc) [] optKeys)"

definition createCacheKey ::
  "pattern_arg \<Rightarrow> string \<Rightarrow> options_arg \<Rightarrow> state \<Rightarrow> (error + string) \<times> state" where
  "createCacheKey pattern cwd options s =
     (case (case pattern of
              PatternArray r \<Rightarrow>
                (let sorted = sort (arrays s r)
                 in (join ''|'' sorted, array_assign r sorted s))
            | PatternString p \<Rightarrow> (p, s)) of
        (patterns, s') \<Rightarrow>
          (case options of
             NullOrUndefined \<Rightarrow>
               (Inl (TypeError ''Cannot convert undefined or null to object''), s')
           | WithProperties props \<Rightarrow>
               (let opts = createCacheKey_opts props
                in case json_object opts of
                     Inl e \<Rightarrow> (Inl e, s')
                   | Inr optsJson \<Rightarrow>
                       (Inr (''{'' @ join '','' [json_quote ''patterns'' @ '':'' @ json_quote patterns,
                                                 json_quote ''cwd'' @ '':'' @ json_quote cwd,
                                                 json_quote ''opts'' @ '':'' @ optsJson] @ ''}''),
                        s'))))"

subsection \<open>The stat cache\<close>

text \<open>
  The key is \<^verbatim>\<open>`${statType}:${path}`\<close>. \<^verbatim>\<open>getCachedStat\<close> returns
  \<^verbatim>\<open>statCache.get(key) || null\<close>: the stored value when it is truthy, \<^verbatim>\<open>null\<close> otherwise,
  and a missing entry reads as \<^verbatim>\<open>undefined\<close>.
\<close>

datatype StatType = lstat | stat

fun statType_string :: "StatType \<Rightarrow> string" where
  "statType_string lstat = ''lstat''"
| "statType_string stat = ''stat''"

definition statType_or_default :: "StatType option \<Rightarrow> StatType" where
  "statType_or_default statType_arg = (case statType_arg of None \<Rightarrow> lstat | Some t \<Rightarrow> t)"

definition stat_key :: "StatType option \<Rightarrow> string \<Rightarrow> string" where
  "stat_key statType_arg path = statType_string (statType_or_default statType_arg) @ '':'' @ path"

definition getCachedStat :: "string \<Rightarrow> StatType option \<Rightarrow> state \<Rightarrow> jsval" where
  "getCachedStat path statType_arg s =
     (let key = stat_key statType_arg path;
          found = (case fmlookup (statCache s) key of None \<Rightarrow> JUndefined | Some v \<Rightarrow> v)
      in if truthy found then found else JNull)"

definition setCachedStat :: "string \<Rightarrow> jsval \<Rightarrow> StatType option \<Rightarrow> state \<Rightarrow> state" where
  "setCachedStat path result statType_arg s =
     (let key = stat_key statType_arg path
      in s\<lparr>statCache := fmupd key result (statCache s)\<rparr>)"

text \<open>A sequence of \<^verbatim>\<open>setCachedStat\<close> calls, run from left to right.\<close>

fun setCachedStat_calls :: "(string \<times> jsval \<times> StatType option) list \<Rightarrow> state \<Rightarrow> state" where
  "setCachedStat_calls [] s = s"
| "setCachedStat_calls ((path, result, statType_arg) # calls) s =
     setCachedStat_calls calls (setCachedStat path result statType_arg s)"

definition clearStatCache :: "state \<Rightarrow> state" where
  "clearStatCache s = s\<lparr>statCache := fmempty\<rparr>"

definition getStatCacheSize :: "state \<Rightarrow> nat" where
  "getStatCacheSize s = map_size (statCache s)"

subsection \<open>Clearing and statistics\<close>

definition clearAllCaches :: "state \<Rightarrow> state" where
  "clearAllCaches s = clearStatCache (clearResultCache (clearPatternCache s))"

record CacheStats =
  patternCacheSize :: nat
  resultCacheSize :: nat
  statCacheSize :: nat

definition getCacheStats :: "state \<Rightarrow> CacheStats" where
  "getCacheStats s =
     \<lparr>patternCacheSize = getPatternCacheSize s,
      resultCacheSize = getResultCacheSize s,
      statCacheSize = getStatCacheSize s\<rparr>"

section \<open>Properties\<close>

subsection \<open>The matcher decides the language of a regular expression\<close>

lemma nullable_lang: "nullable r \<longleftrightarrow> [] \<in> lang r"
  by (induction r) (auto intro: star.intros)

lemma lang_SeqI: "u \<in> lang r \<Longrightarrow> v \<in> lang s \<Longrightarrow> u @ v \<in> lang (Seq r s)"
  by auto

lemma star_cons_split:
  assumes "w \<in> star L" and "w = c # t"
  shows "\<exists>u v. t = u @ v \<and> c # u \<in> L \<and> v \<in> star L"
  using assms
proof (induction rule: star.induct)
  case star_nil
  then show ?case by simp
next
  case (star_app u v)
  show ?case
  proof (cases u)
    case Nil
    with star_app show ?thesis by simp
  next
    case (Cons a u')
    with star_app.prems have "a = c" and "t = u' @ v" by simp_all
    with Cons star_app.hyps show ?thesis by blast
  qed
qed

lemma deriv_lang: "w \<in> lang (deriv c r) \<longleftrightarrow> c # w \<in> lang r"
proof (induction r arbitrary: w)
  case (Seq r s)
  show ?case
  proof
    assume "w \<in> lang (deriv c (Seq r s))"
    then consider (left) "w \<in> lang (Seq (deriv c r) s)"
      | (right) "nullable r" "w \<in> lang (deriv c s)"
      by (auto split: if_splits)
    then show "c # w \<in> lang (Seq r s)"
    proof cases
      case left
      then obtain u v where "w = u @ v" "u \<in> lang (deriv c r)" "v \<in> lang s" by auto
      with Seq.IH(1) have "c # u \<in> lang r" by simp
      then have "(c # u) @ v \<in> lang (Seq r s)" using \<open>v \<in> lang s\<close> by (rule lang_SeqI)
      with \<open>w = u @ v\<close> show ?thesis by simp
    next
      case right
      then have "[] \<in> lang r" "c # w \<in> lang s" using Seq.IH(2) by (simp_all add: nullable_lang)
      then have "[] @ (c # w) \<in> lang (Seq r s)" by (rule lang_SeqI)
      then show ?thesis by simp
    qed
  next
    assume "c # w \<in> lang (Seq r s)"
    then obtain u v where uv: "c # w = u @ v" "u \<in> lang r" "v \<in> lang s" by auto
    show "w \<in> lang (deriv c (Seq r s))"
    proof (cases u)
      case Nil
      with uv have "nullable r" "w \<in> lang (deriv c s)"
        using Seq.IH(2) by (simp_all add: nullable_lang)
      then show ?thesis by simp
    next
      case (Cons a u')
      with uv have "w = u' @ v" "u' \<in> lang (deriv c r)" using Seq.IH(1) by simp_all
      with uv(3) have "w \<in> lang (Seq (deriv c r) s)" by auto
      then show ?thesis by simp
    qed
  qed
next
  case (Star r)
  show ?case
  proof
    assume "w \<in> lang (deriv c (Star r))"
    then obtain u v where "w = u @ v" "u \<in> lang (deriv c r)" "v \<in> star (lang r)" by auto
    with Star.IH have "(c # u) @ v \<in> star (lang r)" by (blast intro: star.star_app)
    with \<open>w = u @ v\<close> show "c # w \<in> lang (Star r)" by simp
  next
    assume "c # w \<in> lang (Star r)"
    then have "c # w \<in> star (lang r)" by simp
    from star_cons_split[OF this refl]
    obtain u v where "w = u @ v" "c # u \<in> lang r" "v \<in> star (lang r)" by blast
    with Star.IH show "w \<in> lang (deriv c (Star r))" by auto
  qed
qed auto

lemma matches_lang: "matches r w \<longleftrightarrow> w \<in> lang r"
  by (induction w arbitrary: r) (simp_all add: nullable_lang deriv_lang)

lemma star_cls: "w \<in> star {[c] |c. c \<in> A} \<longleftrightarrow> set w \<subseteq> A"
proof
  assume "w \<in> star {[c] |c. c \<in> A}"
  then show "set w \<subseteq> A" by (induction rule: star.induct) auto
next
  assume "set w \<subseteq> A"
  then show "w \<in> star {[c] |c. c \<in> A}"
  proof (induction w)
    case Nil
    show ?case by (rule star.star_nil)
  next
    case (Cons a w)
    then have "[a] \<in> {[c] |c. c \<in> A}" "w \<in> star {[c] |c. c \<in> A}" by auto
    then have "[a] @ w \<in> star {[c] |c. c \<in> A}" by (rule star.star_app)
    then show ?case by simp
  qed
qed

lemma lang_Plus_Cls: "w \<in> lang (Plus (Cls cs)) \<longleftrightarrow> w \<noteq> [] \<and> set w \<subseteq> set cs"
proof -
  have "w \<in> lang (Plus (Cls cs)) \<longleftrightarrow> (\<exists>c v. w = [c] @ v \<and> c \<in> set cs \<and> set v \<subseteq> set cs)"
    unfolding Plus_def lang.simps star_cls by blast
  also have "\<dots> \<longleftrightarrow> w \<noteq> [] \<and> set w \<subseteq> set cs"
    by (cases w) auto
  finally show ?thesis .
qed

lemma lang_Plus_Word: "w \<in> lang (Plus Word) \<longleftrightarrow> w \<noteq> [] \<and> set w \<subseteq> set word_chars"
  by (simp add: Word_def lang_Plus_Cls)

lemma lang_two_chars: "u \<in> lang (Seq (Chr a) (Chr b)) \<longleftrightarrow> u = [a, b]"
  by (auto simp: Chr_def)

lemma lang_three_chars: "u \<in> lang (Seq (Chr a) (Seq (Chr b) (Chr c))) \<longleftrightarrow> u = [a, b, c]"
  by (auto simp: Chr_def)

subsection \<open>What \<^verbatim>\<open>test\<close>, \<^verbatim>\<open>exec\<close> and \<^verbatim>\<open>endsWith\<close> compute\<close>

lemma set_splits: "set (splits s) = {(u, v). u @ v = s}"
proof (induction s)
  case Nil
  show ?case by auto
next
  case (Cons c cs)
  have "{(u, v). u @ v = c # cs} =
      insert ([], c # cs) ((\<lambda>(u, v). (c # u, v)) ` {(u, v). u @ v = cs})"
    by (auto simp: append_eq_Cons_conv image_iff)
  with Cons show ?case by simp
qed

lemma endsWith_iff: "endsWith s t \<longleftrightarrow> (\<exists>pre. s = pre @ t)"
proof
  assume "endsWith s t"
  then have "s = take (length s - length t) s @ t"
    by (metis append_take_drop_id endsWith_def)
  then show "\<exists>pre. s = pre @ t" ..
next
  assume "\<exists>pre. s = pre @ t"
  then show "endsWith s t" by (auto simp: endsWith_def)
qed

lemma test_anywhere_Cls: "test_anywhere (Cls cs) s \<longleftrightarrow> (\<exists>c \<in> set s. c \<in> set cs)"
proof -
  have "test_anywhere (Cls cs) s \<longleftrightarrow>
      (\<exists>t u c. suffix t s \<and> prefix u t \<and> u = [c] \<and> c \<in> set cs)"
    unfolding test_anywhere_def list_ex_iff Bex_def in_set_suffixes in_set_prefixes matches_lang
    by auto
  also have "\<dots> \<longleftrightarrow> (\<exists>c \<in> set s. c \<in> set cs)"
  proof
    assume "\<exists>t u c. suffix t s \<and> prefix u t \<and> u = [c] \<and> c \<in> set cs"
    then obtain t c where "suffix t s" "prefix [c] t" "c \<in> set cs" by blast
    then have "c \<in> set t" "set t \<subseteq> set s"
      by (auto simp: prefix_def suffix_def)
    with \<open>c \<in> set cs\<close> show "\<exists>c \<in> set s. c \<in> set cs" by blast
  next
    assume "\<exists>c \<in> set s. c \<in> set cs"
    then obtain c where "c \<in> set s" "c \<in> set cs" by blast
    then obtain ys zs where "s = ys @ c # zs" by (auto simp: in_set_conv_decomp)
    then have "suffix (c # zs) s" "prefix [c] (c # zs)" by (auto simp: suffix_def)
    with \<open>c \<in> set cs\<close>
    show "\<exists>t u c. suffix t s \<and> prefix u t \<and> u = [c] \<and> c \<in> set cs" by blast
  qed
  finally show ?thesis .
qed

lemma find_Some_mem: "find P xs = Some x \<Longrightarrow> x \<in> set xs \<and> P x"
  by (induction xs) (auto split: if_splits)

lemma exec_group_Some:
  "exec_group pre grp s = Some v \<Longrightarrow> \<exists>u. s = u @ v \<and> u \<in> lang pre \<and> v \<in> lang grp"
proof -
  assume "exec_group pre grp s = Some v"
  then obtain u where "find (\<lambda>(u, v). matches pre u \<and> matches grp v) (splits s) = Some (u, v)"
    by (auto simp: exec_group_def)
  then have "(u, v) \<in> set (splits s)" "matches pre u \<and> matches grp v"
    by (auto dest: find_Some_mem)
  then show ?thesis by (auto simp: set_splits matches_lang)
qed

lemma exec_group_None:
  "exec_group pre grp s = None \<longleftrightarrow> (\<forall>u v. s = u @ v \<longrightarrow> \<not> (u \<in> lang pre \<and> v \<in> lang grp))"
  by (auto simp: exec_group_def find_None_iff matches_lang set_splits)

lemma exec_group_lit_Some:
  assumes "\<And>u. u \<in> lang pre \<longleftrightarrow> u = lit" and "ext \<noteq> []" and "set ext \<subseteq> set word_chars"
  shows "exec_group pre (Plus Word) (lit @ ext) = Some ext"
proof (cases "exec_group pre (Plus Word) (lit @ ext)")
  case None
  with assms show ?thesis
    by (auto simp: exec_group_None lang_Plus_Word)
next
  case (Some v)
  from exec_group_Some[OF this] show ?thesis
    using Some by (auto simp: assms(1))
qed

lemma exec_group_lit_None:
  assumes "\<And>u. u \<in> lang pre \<longleftrightarrow> u = lit"
    and "\<not> (\<exists>ext. s = lit @ ext \<and> ext \<noteq> [] \<and> set ext \<subseteq> set word_chars)"
  shows "exec_group pre (Plus Word) s = None"
  using assms(2) by (auto simp: exec_group_None assms(1) lang_Plus_Word)

subsection \<open>The fast path\<close>

lemma fastPathMatch_star_ext:
  assumes "ext \<noteq> []" and "set ext \<subseteq> set word_chars"
  shows "fastPathMatch (''*.'' @ ext) f = Some (endsWith f (''.'' @ ext))"
  using exec_group_lit_Some[OF lang_two_chars assms, of "CHR ''*''" "CHR ''.''"]
  by (simp add: fastPathMatch_def)

lemma fastPathMatch_starstar_ext:
  assumes "ext \<noteq> []" and "set ext \<subseteq> set word_chars"
  shows "fastPathMatch (''**.'' @ ext) f = Some (endsWith f (''.'' @ ext))"
proof -
  have "exec_group (Seq (Chr CHR ''*'') (Chr CHR ''.'')) (Plus Word) (''**.'' @ ext) = None"
    by (rule exec_group_lit_None[OF lang_two_chars]) simp
  moreover have "exec_group (Seq (Chr CHR ''*'') (Seq (Chr CHR ''*'') (Chr CHR ''.'')))
      (Plus Word) (''**.'' @ ext) = Some ext"
    using exec_group_lit_Some[OF lang_three_chars assms, of "CHR ''*''" "CHR ''*''" "CHR ''.''"]
    by simp
  ultimately show ?thesis by (simp add: fastPathMatch_def)
qed

lemma fastPathMatch_other:
  assumes "\<not> (\<exists>ext. ext \<noteq> [] \<and> set ext \<subseteq> set word_chars \<and>
                  (p = ''*.'' @ ext \<or> p = ''**.'' @ ext))"
  shows "fastPathMatch p f = None"
proof -
  have "exec_group (Seq (Chr CHR ''*'') (Chr CHR ''.'')) (Plus Word) p = None"
    by (rule exec_group_lit_None[OF lang_two_chars]) (use assms in auto)
  moreover have "exec_group (Seq (Chr CHR ''*'') (Seq (Chr CHR ''*'') (Chr CHR ''.'')))
      (Plus Word) p = None"
    by (rule exec_group_lit_None[OF lang_three_chars]) (use assms in auto)
  ultimately show ?thesis by (simp add: fastPathMatch_def)
qed

lemma lang_ext_regex:
  "p \<in> lang (Seq (Chr CHR ''*'') (Seq (Opt (Chr CHR ''*'')) (Seq (Chr CHR ''.'') (Plus Word)))) \<longleftrightarrow>
   (\<exists>ext. ext \<noteq> [] \<and> set ext \<subseteq> set word_chars \<and> (p = ''*.'' @ ext \<or> p = ''**.'' @ ext))"
  (is "?L \<longleftrightarrow> ?R")
proof
  assume ?L
  then obtain b d where "p = ''*'' @ b @ ''.'' @ d" "b = ''*'' \<or> b = []" "d \<in> lang (Plus Word)"
    by (auto simp: Chr_def Opt_def)
  then show ?R by (auto simp: lang_Plus_Word)
next
  assume ?R
  then obtain ext where e: "ext \<in> lang (Plus Word)" and "p = ''*.'' @ ext \<or> p = ''**.'' @ ext"
    by (auto simp: lang_Plus_Word)
  then have "p = ''*'' @ ([] @ (''.'' @ ext)) \<or> p = ''*'' @ (''*'' @ (''.'' @ ext))" by simp
  moreover have "''*'' \<in> lang (Chr CHR ''*'')" "''.'' \<in> lang (Chr CHR ''.'')"
    "[] \<in> lang (Opt (Chr CHR ''*''))" "''*'' \<in> lang (Opt (Chr CHR ''*''))"
    by (simp_all add: Chr_def Opt_def)
  ultimately show ?L using e by (metis lang_SeqI)
qed

lemma isSimplePattern_abc: "isSimplePattern ''abc''"
  by (simp add: isSimplePattern_def test_anywhere_Cls)

text \<open>
  Claim C7. \<^verbatim>\<open>fastPathMatch\<close> answers for two shapes of pattern only. When the pattern is
  \<^verbatim>\<open>*.\<close> followed by an extension \<open>ext\<close> of one or more word characters, or \<^verbatim>\<open>**.\<close>
  followed by such an extension, the result is the truth value of "the file name ends
  with a dot and \<open>ext\<close>". For every other pattern the result is \<^verbatim>\<open>null\<close>, also for a
  pattern such as \<^verbatim>\<open>abc\<close> that \<^verbatim>\<open>isSimplePattern\<close> accepts because it has no special
  character.
\<close>

theorem fastPathMatch_two_shapes:
  "(ext \<noteq> [] \<and> set ext \<subseteq> set word_chars \<longrightarrow>
      fastPathMatch (''*.'' @ ext) filename = Some (\<exists>pre. filename = pre @ ''.'' @ ext) \<and>
      fastPathMatch (''**.'' @ ext) filename = Some (\<exists>pre. filename = pre @ ''.'' @ ext))
   \<and> ((\<nexists>e. e \<noteq> [] \<and> set e \<subseteq> set word_chars \<and> (pattern = ''*.'' @ e \<or> pattern = ''**.'' @ e))
        \<longrightarrow> fastPathMatch pattern filename = None)
   \<and> isSimplePattern ''abc'' \<and> fastPathMatch ''abc'' filename = None"
proof (intro conjI impI)
  assume e: "ext \<noteq> [] \<and> set ext \<subseteq> set word_chars"
  then show "fastPathMatch (''*.'' @ ext) filename = Some (\<exists>pre. filename = pre @ ''.'' @ ext)"
    using fastPathMatch_star_ext[of ext filename] by (simp add: endsWith_iff)
  from e show "fastPathMatch (''**.'' @ ext) filename = Some (\<exists>pre. filename = pre @ ''.'' @ ext)"
    using fastPathMatch_starstar_ext[of ext filename] by (simp add: endsWith_iff)
next
  assume "\<nexists>e. e \<noteq> [] \<and> set e \<subseteq> set word_chars \<and> (pattern = ''*.'' @ e \<or> pattern = ''**.'' @ e)"
  then show "fastPathMatch pattern filename = None" by (rule fastPathMatch_other)
next
  show "isSimplePattern ''abc''" by (rule isSimplePattern_abc)
next
  show "fastPathMatch ''abc'' filename = None"
    by (rule fastPathMatch_other) simp
qed

theorem fastPathMatch_two_shapes_witness:
  "fastPathMatch ''*.js'' ''a/b/c.js'' = Some True \<and>
   fastPathMatch ''**.js'' ''a/b/c.js'' = Some True \<and>
   fastPathMatch ''src/*.js'' ''a/b/c.js'' = None"
proof -
  have ext: "''js'' \<noteq> [] \<and> set ''js'' \<subseteq> set word_chars"
    by (simp add: word_chars_def)
  have other: "\<nexists>e. e \<noteq> [] \<and> set e \<subseteq> set word_chars \<and>
      (''src/*.js'' = ''*.'' @ e \<or> ''src/*.js'' = ''**.'' @ e)"
    by simp
  have ends: "\<exists>pre. ''a/b/c.js'' = pre @ ''.'' @ ''js''"
    by (rule exI[of _ "''a/b/c''"]) simp
  show ?thesis
    using fastPathMatch_two_shapes[of "''js''" "''a/b/c.js''" "''src/*.js''"] ext other ends
    by simp
qed

text \<open>
  Claim C8. \<^verbatim>\<open>isSimplePattern\<close> returns true exactly when the pattern is \<^verbatim>\<open>*.ext\<close> or
  \<^verbatim>\<open>**.ext\<close> with \<open>ext\<close> one or more word characters (the strings that
  \<^verbatim>\<open>^\*\*?\.\w+$\<close> matches), or when the pattern contains none of the characters
  \<^verbatim>\<open>? [ ] { } ( ) + @ !\<close>; it returns false in every other case.
\<close>

theorem isSimplePattern_grammar:
  "isSimplePattern pattern \<longleftrightarrow>
     (\<exists>ext. ext \<noteq> [] \<and> set ext \<subseteq> set word_chars \<and>
            (pattern = ''*.'' @ ext \<or> pattern = ''**.'' @ ext))
     \<or> (\<forall>c \<in> set pattern. c \<notin> set ''?[]{}()+@!'')"
  unfolding isSimplePattern_def test_whole_def matches_lang lang_ext_regex test_anywhere_Cls
  by auto

theorem isSimplePattern_grammar_witness:
  "isSimplePattern ''src/lib*.ts'' \<and> \<not> isSimplePattern ''*.{js,ts}''"
proof -
  have "\<forall>c \<in> set ''src/lib*.ts''. c \<notin> set ''?[]{}()+@!''" by simp
  moreover have "\<not> (\<forall>c \<in> set ''*.{js,ts}''. c \<notin> set ''?[]{}()+@!'')" by simp
  moreover have "\<nexists>ext. ext \<noteq> [] \<and> set ext \<subseteq> set word_chars \<and>
      (''*.{js,ts}'' = ''*.'' @ ext \<or> ''*.{js,ts}'' = ''**.'' @ ext)"
    by (auto simp: word_chars_def)
  ultimately show ?thesis
    using isSimplePattern_grammar[of "''src/lib*.ts''"] isSimplePattern_grammar[of "''*.{js,ts}''"]
    by blast
qed

subsection \<open>The result cache: expiry on access\<close>

lemma map_size_fmdrop:
  "fmlookup m k = Some e \<Longrightarrow> Suc (map_size (fmdrop k m)) = map_size m"
proof -
  assume "fmlookup m k = Some e"
  then have "k |\<in>| fmdom m" by (rule fmdomI)
  then show ?thesis
    unfolding map_size_def fmdom_drop by (rule fcard_Suc_fminus1)
qed

lemma getCachedResults_absent:
  "fmlookup (resultCache s) k = None \<Longrightarrow> getCachedResults now k ttl s = (None, s)"
  by (simp add: getCachedResults_def)

lemma getCachedResults_expired:
  assumes "fmlookup (resultCache s) k = Some e"
    and "now - timestamp e > (case ttl of None \<Rightarrow> DEFAULT_TTL | Some t \<Rightarrow> t)"
  shows "getCachedResults now k ttl s = (None, s\<lparr>resultCache := fmdrop k (resultCache s)\<rparr>)"
  using assms by (simp add: getCachedResults_def)

lemma getCachedResults_fresh:
  assumes "fmlookup (resultCache s) k = Some e"
    and "now - timestamp e \<le> (case ttl of None \<Rightarrow> DEFAULT_TTL | Some t \<Rightarrow> t)"
  shows "getCachedResults now k ttl s = (Some (results e), s)"
  using assms by (simp add: getCachedResults_def)

lemma setCachedResults_entry:
  "fmlookup (resultCache (setCachedResults now k arr s)) k =
     Some \<lparr>results = next_ref s, timestamp = now\<rparr>"
  by (simp add: setCachedResults_def new_array_def)

lemma setCachedResults_arrays:
  "arrays (setCachedResults now k arr s) = (arrays s)(next_ref s := arrays s arr)"
  by (simp add: setCachedResults_def new_array_def)

text \<open>
  Claim C4. \<^verbatim>\<open>getCachedResults\<close> returns \<^verbatim>\<open>null\<close> when the key has no entry. When the
  key has an entry older than the time to live (\<open>now - timestamp > ttl\<close>), it deletes the
  entry, which makes the result cache one smaller, and returns \<^verbatim>\<open>null\<close>. Otherwise it
  returns the stored results and changes nothing. In particular, an array \<^verbatim>\<open>['x']\<close>
  stored at time \<open>T\<close> is returned at \<open>T + 50\<close> with a time to live of 100, and is
  absent at \<open>T + 150\<close>, after which the size has gone down by one.
\<close>

theorem getCachedResults_ttl:
  "(fmlookup (resultCache s) k = None \<longrightarrow> getCachedResults now k ttl s = (None, s))
   \<and> (fmlookup (resultCache s) k = Some e \<and>
        now - timestamp e > (case ttl of None \<Rightarrow> DEFAULT_TTL | Some t \<Rightarrow> t) \<longrightarrow>
        fst (getCachedResults now k ttl s) = None \<and>
        fmlookup (resultCache (snd (getCachedResults now k ttl s))) k = None \<and>
        Suc (getResultCacheSize (snd (getCachedResults now k ttl s))) = getResultCacheSize s)
   \<and> (fmlookup (resultCache s) k = Some e \<and>
        now - timestamp e \<le> (case ttl of None \<Rightarrow> DEFAULT_TTL | Some t \<Rightarrow> t) \<longrightarrow>
        getCachedResults now k ttl s = (Some (results e), s))
   \<and> (arrays s arr = [''x''] \<longrightarrow>
        (let s1 = setCachedResults T k arr s;
             (r50, s2) = getCachedResults (T + 50) k (Some 100) s1;
             (r150, s3) = getCachedResults (T + 150) k (Some 100) s2
         in map_option (arrays s1) r50 = Some [''x''] \<and> s2 = s1 \<and> r150 = None \<and>
            Suc (getResultCacheSize s3) = getResultCacheSize s2))"
proof (intro conjI impI)
  assume "fmlookup (resultCache s) k = None"
  then show "getCachedResults now k ttl s = (None, s)" by (rule getCachedResults_absent)
next
  assume a: "fmlookup (resultCache s) k = Some e \<and>
        now - timestamp e > (case ttl of None \<Rightarrow> DEFAULT_TTL | Some t \<Rightarrow> t)"
  then have g: "getCachedResults now k ttl s = (None, s\<lparr>resultCache := fmdrop k (resultCache s)\<rparr>)"
    by (simp add: getCachedResults_expired)
  show "fst (getCachedResults now k ttl s) = None" by (simp add: g)
  show "fmlookup (resultCache (snd (getCachedResults now k ttl s))) k = None" by (simp add: g)
  show "Suc (getResultCacheSize (snd (getCachedResults now k ttl s))) = getResultCacheSize s"
    using a by (simp add: g getResultCacheSize_def map_size_fmdrop)
next
  assume "fmlookup (resultCache s) k = Some e \<and>
        now - timestamp e \<le> (case ttl of None \<Rightarrow> DEFAULT_TTL | Some t \<Rightarrow> t)"
  then show "getCachedResults now k ttl s = (Some (results e), s)"
    by (simp add: getCachedResults_fresh)
next
  assume x: "arrays s arr = [''x'']"
  define s1 where "s1 = setCachedResults T k arr s"
  have e: "fmlookup (resultCache s1) k = Some \<lparr>results = next_ref s, timestamp = T\<rparr>"
    by (simp add: s1_def setCachedResults_entry)
  have g50: "getCachedResults (T + 50) k (Some 100) s1 = (Some (next_ref s), s1)"
    using getCachedResults_fresh[OF e, of "T + 50" "Some 100"] by simp
  have g150: "getCachedResults (T + 150) k (Some 100) s1 =
      (None, s1\<lparr>resultCache := fmdrop k (resultCache s1)\<rparr>)"
    using getCachedResults_expired[OF e, of "Some 100" "T + 150"] by simp
  have arr: "arrays s1 (next_ref s) = [''x'']"
    by (simp add: s1_def setCachedResults_arrays x)
  show "let s1 = setCachedResults T k arr s;
             (r50, s2) = getCachedResults (T + 50) k (Some 100) s1;
             (r150, s3) = getCachedResults (T + 150) k (Some 100) s2
         in map_option (arrays s1) r50 = Some [''x''] \<and> s2 = s1 \<and> r150 = None \<and>
            Suc (getResultCacheSize s3) = getResultCacheSize s2"
    unfolding s1_def[symmetric] Let_def g50 prod.case g150
    using e arr by (simp add: getResultCacheSize_def map_size_fmdrop)
qed

theorem getCachedResults_ttl_witness:
  "getCachedResults 7 ''j'' None
       (setCachedResults 1000 ''k'' 0 (snd (new_array [''x''] initial_state))) =
     (None, setCachedResults 1000 ''k'' 0 (snd (new_array [''x''] initial_state)))
   \<and> getCachedResults 1050 ''k'' (Some 100)
       (setCachedResults 1000 ''k'' 0 (snd (new_array [''x''] initial_state))) =
     (Some 1, setCachedResults 1000 ''k'' 0 (snd (new_array [''x''] initial_state)))
   \<and> arrays (setCachedResults 1000 ''k'' 0 (snd (new_array [''x''] initial_state))) 1 = [''x'']
   \<and> fst (getCachedResults 1150 ''k'' (Some 100)
       (setCachedResults 1000 ''k'' 0 (snd (new_array [''x''] initial_state)))) = None
   \<and> getResultCacheSize (setCachedResults 1000 ''k'' 0 (snd (new_array [''x''] initial_state))) =
     Suc (getResultCacheSize (snd (getCachedResults 1150 ''k'' (Some 100)
       (setCachedResults 1000 ''k'' 0 (snd (new_array [''x''] initial_state))))))"
proof -
  define s0 where "s0 = snd (new_array [''x''] initial_state)"
  define s1 where "s1 = setCachedResults 1000 ''k'' 0 s0"
  define e where "e = \<lparr>results = 1, timestamp = 1000\<rparr>"
  have x: "arrays s0 0 = [''x'']"
    by (simp add: s0_def new_array_def initial_state_def)
  have k: "fmlookup (resultCache s1) ''k'' = Some e"
    by (simp add: s1_def s0_def e_def setCachedResults_def new_array_def initial_state_def)
  have j: "fmlookup (resultCache s1) ''j'' = None"
    by (simp add: s1_def s0_def setCachedResults_def new_array_def initial_state_def)
  have young: "1050 - timestamp e \<le> (case Some 100 of None \<Rightarrow> DEFAULT_TTL | Some t \<Rightarrow> t)"
    by (simp add: e_def)
  have old: "1150 - timestamp e > (case Some 100 of None \<Rightarrow> DEFAULT_TTL | Some t \<Rightarrow> t)"
    by (simp add: e_def)
  have c1: "getCachedResults 7 ''j'' None s1 = (None, s1)"
    using getCachedResults_ttl[of s1 "''j''" 7 None] j by blast
  have c2: "getCachedResults 1050 ''k'' (Some 100) s1 = (Some 1, s1)"
    using getCachedResults_ttl[of s1 "''k''" 1050 "Some 100" e] k young by (simp add: e_def)
  have c3: "fst (getCachedResults 1150 ''k'' (Some 100) s1) = None"
    and c4: "Suc (getResultCacheSize (snd (getCachedResults 1150 ''k'' (Some 100) s1))) =
      getResultCacheSize s1"
    using getCachedResults_ttl[of s1 "''k''" 1150 "Some 100" e] k old by blast+
  have c5: "let s1 = setCachedResults 1000 ''k'' 0 s0;
             (r50, s2) = getCachedResults (1000 + 50) ''k'' (Some 100) s1;
             (r150, s3) = getCachedResults (1000 + 150) ''k'' (Some 100) s2
         in map_option (arrays s1) r50 = Some [''x''] \<and> s2 = s1 \<and> r150 = None \<and>
            Suc (getResultCacheSize s3) = getResultCacheSize s2"
    using getCachedResults_ttl[of s0 "''k''" 0 None e 0 1000] x by blast
  have c6: "arrays s1 1 = [''x'']"
    using c5 c2 by (simp add: s1_def[symmetric])
  show ?thesis
    using c1 c2 c3 c4 c6 by (simp add: s1_def s0_def)
qed

subsection \<open>The stat cache\<close>

lemma stat_key_eq_iff:
  "stat_key k p = stat_key k' p' \<longleftrightarrow>
     statType_or_default k = statType_or_default k' \<and> p = p'"
  by (cases "statType_or_default k"; cases "statType_or_default k'") (auto simp: stat_key_def)

lemma setCachedStat_lookup:
  "fmlookup (statCache (setCachedStat p v k s)) key =
     (if key = stat_key k p then Some v else fmlookup (statCache s) key)"
  by (auto simp: setCachedStat_def Let_def)

lemma setCachedStat_calls_other:
  assumes "\<forall>(p', v', k') \<in> set calls. stat_key k' p' \<noteq> key"
  shows "fmlookup (statCache (setCachedStat_calls calls s)) key = fmlookup (statCache s) key"
  using assms
proof (induction calls arbitrary: s)
  case Nil
  show ?case by simp
next
  case (Cons c calls)
  obtain p' v' k' where c: "c = (p', v', k')" by (cases c)
  with Cons.prems have "stat_key k' p' \<noteq> key" by simp
  moreover from Cons have "fmlookup (statCache (setCachedStat_calls calls (setCachedStat p' v' k' s))) key
      = fmlookup (statCache (setCachedStat p' v' k' s)) key"
    by simp
  ultimately show ?case by (simp add: c setCachedStat_lookup)
qed

lemma getCachedStat_stored:
  "fmlookup (statCache s) (stat_key k p) = Some v \<Longrightarrow>
     getCachedStat p k s = (if truthy v then v else JNull)"
  by (simp add: getCachedStat_def Let_def)

text \<open>
  Claim C2 says that a stored stat value comes back whatever it is. \<^verbatim>\<open>getCachedStat\<close>
  returns \<^verbatim>\<open>statCache.get(key) || null\<close>, so a stored value that is falsy comes back as
  \<^verbatim>\<open>null\<close>: after \<^verbatim>\<open>setCachedStat('/p', false, 'lstat')\<close> the call
  \<^verbatim>\<open>getCachedStat('/p', 'lstat')\<close> returns \<^verbatim>\<open>null\<close>, not \<^verbatim>\<open>false\<close>.
\<close>

theorem getCachedStat_falsy_counterexample:
  "getCachedStat ''/p'' (Some lstat) (setCachedStat ''/p'' (JBoolean False) (Some lstat) initial_state)
     = JNull
   \<and> getCachedStat ''/p'' (Some lstat)
        (setCachedStat ''/p'' (JBoolean False) (Some lstat) initial_state) \<noteq> JBoolean False"
  by (simp add: getCachedStat_def setCachedStat_def Let_def)

text \<open>
  Claim C2, amended. For every path \<open>p\<close>, kind \<open>k\<close> and truthy value \<open>v\<close> (every
  object, so every stat result, is truthy): after \<^verbatim>\<open>setCachedStat(p, v, k)\<close>, and after
  any further \<^verbatim>\<open>setCachedStat\<close> calls that write other paths or the other kind, with no
  clear in between, \<^verbatim>\<open>getCachedStat(p, k)\<close> returns exactly \<open>v\<close>. There is no expiry:
  no time enters the lookup.
\<close>

theorem getCachedStat_truthy:
  assumes "truthy v"
    and "\<forall>(p', v', k') \<in> set calls.
           \<not> (p' = p \<and> statType_or_default k' = statType_or_default k)"
  shows "getCachedStat p k (setCachedStat_calls calls (setCachedStat p v k s)) = v"
proof -
  from assms(2) have "\<forall>(p', v', k') \<in> set calls. stat_key k' p' \<noteq> stat_key k p"
    by (auto simp: stat_key_eq_iff)
  then have "fmlookup (statCache (setCachedStat_calls calls (setCachedStat p v k s))) (stat_key k p)
      = Some v"
    by (simp add: setCachedStat_calls_other setCachedStat_lookup)
  with assms(1) show ?thesis by (simp add: getCachedStat_stored)
qed

theorem getCachedStat_truthy_witness:
  "getCachedStat ''/p'' None
     (setCachedStat_calls [(''/p'', JNull, Some stat), (''/q'', JBoolean False, None)]
        (setCachedStat ''/p'' (JObject 7) None initial_state)) = JObject 7"
  using getCachedStat_truthy[of "JObject 7" "[(''/p'', JNull, Some stat), (''/q'', JBoolean False, None)]"
      "''/p''" None initial_state]
  by (simp add: statType_or_default_def)

subsection \<open>The pattern cache: a constructor that throws\<close>

lemma new_Minimatch_fails:
  "engine pattern options = Some e \<Longrightarrow>
     new_Minimatch engine pattern options s =
       (Inl e, s\<lparr>constructed := constructed s @ [(pattern, options)]\<rparr>)"
  by (simp add: new_Minimatch_def)

lemma getCachedPattern_miss_fails:
  assumes "cacheKey pattern options = Inr key"
    and "fmlookup (patternCache s) key = None"
    and "engine pattern options = Some e"
  shows "getCachedPattern engine pattern options s =
     (Inl e, s\<lparr>constructed := constructed s @ [(pattern, options)]\<rparr>)"
  using assms by (simp add: getCachedPattern_def new_Minimatch_fails)

lemma getCachedPattern_hit:
  assumes "cacheKey pattern options = Inr key"
    and "fmlookup (patternCache s) key = Some m"
  shows "getCachedPattern engine pattern options s = (Inr m, s)"
  using assms by (simp add: getCachedPattern_def)

lemma getCachedPattern_Inr:
  assumes "getCachedPattern engine pattern options s = (Inr m, s')"
  shows "\<exists>key. cacheKey pattern options = Inr key \<and> fmlookup (patternCache s') key = Some m"
  using assms
  by (auto simp: getCachedPattern_def new_Minimatch_def Let_def
      split: sum.splits option.splits prod.splits)

text \<open>
  Claim C9. Take a call of \<^verbatim>\<open>getCachedPattern\<close> in which the constructor fails: the key is
  derived, the table has no entry for it (so the constructor is called), and the
  constructor throws \<open>e\<close>. Then the call throws that same \<open>e\<close>, the pattern cache is
  exactly as before (no entry under the key, same size), and the constructor has been
  called once. A second call with the same arguments calls the constructor again, throws
  \<open>e\<close> again, and still stores nothing.
\<close>

theorem getCachedPattern_engine_failure:
  assumes "cacheKey pattern options = Inr key"
    and "fmlookup (patternCache s) key = None"
    and "engine pattern options = Some e"
  shows "(let (r1, s1) = getCachedPattern engine pattern options s;
              (r2, s2) = getCachedPattern engine pattern options s1
          in r1 = Inl e \<and> patternCache s1 = patternCache s \<and>
             fmlookup (patternCache s1) key = None \<and>
             getPatternCacheSize s1 = getPatternCacheSize s \<and>
             constructed s1 = constructed s @ [(pattern, options)] \<and>
             r2 = Inl e \<and> patternCache s2 = patternCache s \<and>
             constructed s2 = constructed s1 @ [(pattern, options)])"
proof -
  define s1 where "s1 = s\<lparr>constructed := constructed s @ [(pattern, options)]\<rparr>"
  have first: "getCachedPattern engine pattern options s = (Inl e, s1)"
    unfolding s1_def using assms by (rule getCachedPattern_miss_fails)
  have "fmlookup (patternCache s1) key = None"
    using assms(2) by (simp add: s1_def)
  with assms(1) have second: "getCachedPattern engine pattern options s1 =
      (Inl e, s1\<lparr>constructed := constructed s1 @ [(pattern, options)]\<rparr>)"
    using assms(3) by (rule getCachedPattern_miss_fails)
  show ?thesis
    unfolding first second Let_def prod.case
    using assms(2) by (simp add: s1_def getPatternCacheSize_def)
qed

lemma cacheKey_no_options: "\<exists>key. cacheKey pattern [] = Inr key"
  by (simp add: cacheKey_def serializableOpts_def Object_keys_def json_object_def)

theorem getCachedPattern_engine_failure_witness:
  "fst (getCachedPattern (\<lambda>p opts. if p = ''bad'' then Some (TypeError ''invalid pattern'') else None)
          ''bad'' [] initial_state) = Inl (TypeError ''invalid pattern'')
   \<and> getPatternCacheSize (snd (getCachedPattern
          (\<lambda>p opts. if p = ''bad'' then Some (TypeError ''invalid pattern'') else None)
          ''bad'' [] initial_state)) = 0
   \<and> constructed (snd (getCachedPattern
          (\<lambda>p opts. if p = ''bad'' then Some (TypeError ''invalid pattern'') else None)
          ''bad'' [] initial_state)) = [(''bad'', [])]"
proof -
  define engine :: "string \<Rightarrow> properties \<Rightarrow> error option"
    where "engine = (\<lambda>p opts. if p = ''bad'' then Some (TypeError ''invalid pattern'') else None)"
  obtain key where k: "cacheKey ''bad'' [] = Inr key"
    using cacheKey_no_options by blast
  have miss: "fmlookup (patternCache initial_state) key = None"
    by (simp add: initial_state_def)
  have fails: "engine ''bad'' [] = Some (TypeError ''invalid pattern'')"
    by (simp add: engine_def)
  have "fst (getCachedPattern engine ''bad'' [] initial_state) = Inl (TypeError ''invalid pattern'')
    \<and> getPatternCacheSize (snd (getCachedPattern engine ''bad'' [] initial_state)) = 0
    \<and> constructed (snd (getCachedPattern engine ''bad'' [] initial_state)) = [(''bad'', [])]"
    using getCachedPattern_engine_failure[of "''bad''" "[]" key initial_state engine
        "TypeError ''invalid pattern''"] k miss fails
    by (auto simp: Let_def initial_state_def getPatternCacheSize_def map_size_def
        split: prod.splits)
  then show ?thesis unfolding engine_def .
qed

subsection \<open>The result cache: who shares the stored array\<close>

lemma setCachedResults_copy_is_fresh:
  assumes "arr < next_ref s"
  shows "arrays (array_assign arr xs (setCachedResults now k arr s)) (next_ref s) = arrays s arr"
  using assms by (simp add: array_assign_def setCachedResults_def new_array_def)

lemma getCachedResults_array_assign:
  "getCachedResults now k ttl (array_assign r xs s) =
     (fst (getCachedResults now k ttl s), array_assign r xs (snd (getCachedResults now k ttl s)))"
  by (simp add: getCachedResults_def array_assign_def Let_def split: option.splits)

text \<open>
  The direction of defensive copying that holds. After \<^verbatim>\<open>setCachedResults(k, arr)\<close> the
  entry holds a new array: whatever the caller then writes into \<open>arr\<close>, a lookup that
  finds the entry alive returns an array with the contents \<open>arr\<close> had when stored.
\<close>

lemma setCachedResults_isolated_from_argument:
  assumes "arr < next_ref s"
    and "now' - now \<le> (case ttl of None \<Rightarrow> DEFAULT_TTL | Some t \<Rightarrow> t)"
  shows "\<exists>r. fst (getCachedResults now' k ttl (array_assign arr xs (setCachedResults now k arr s)))
            = Some r
          \<and> arrays (array_assign arr xs (setCachedResults now k arr s)) r = arrays s arr"
proof -
  have e: "fmlookup (resultCache (setCachedResults now k arr s)) k =
      Some \<lparr>results = next_ref s, timestamp = now\<rparr>"
    by (rule setCachedResults_entry)
  have "getCachedResults now' k ttl (setCachedResults now k arr s) =
      (Some (next_ref s), setCachedResults now k arr s)"
    using getCachedResults_fresh[OF e, of now' ttl] assms(2) by simp
  then have "fst (getCachedResults now' k ttl (array_assign arr xs (setCachedResults now k arr s)))
      = Some (next_ref s)"
    by (simp add: getCachedResults_array_assign)
  with setCachedResults_copy_is_fresh[OF assms(1)] show ?thesis by blast
qed

text \<open>
  Claim C1 says that a caller who changes the array it got from \<^verbatim>\<open>getCachedResults\<close>
  does not change what the next call returns. \<^verbatim>\<open>getCachedResults\<close> returns the stored
  array itself. An array \<^verbatim>\<open>['x']\<close> (reference 0) is stored under \<^verbatim>\<open>'k'\<close>; the copy
  is reference 1. \<^verbatim>\<open>getCachedResults('k')\<close> returns reference 1; the caller pushes
  \<^verbatim>\<open>'y'\<close> onto it, and the next \<^verbatim>\<open>getCachedResults('k')\<close> returns
  \<^verbatim>\<open>['x', 'y']\<close>.
\<close>

theorem getCachedResults_returns_stored_array:
  "getCachedResults 1 ''k'' None
       (setCachedResults 0 ''k'' 0 (snd (new_array [''x''] initial_state))) =
     (Some 1, setCachedResults 0 ''k'' 0 (snd (new_array [''x''] initial_state)))
   \<and> arrays (setCachedResults 0 ''k'' 0 (snd (new_array [''x''] initial_state))) 1 = [''x'']
   \<and> fst (getCachedResults 2 ''k'' None
        (array_assign 1 [''x'', ''y'']
          (setCachedResults 0 ''k'' 0 (snd (new_array [''x''] initial_state))))) = Some 1
   \<and> arrays (snd (getCachedResults 2 ''k'' None
        (array_assign 1 [''x'', ''y'']
          (setCachedResults 0 ''k'' 0 (snd (new_array [''x''] initial_state)))))) 1 = [''x'', ''y'']"
  by (simp add: getCachedResults_def setCachedResults_def new_array_def array_assign_def
      initial_state_def DEFAULT_TTL_def)

subsection \<open>Key derivation: only primitive values are printed\<close>

lemma set_update_subset: "set (AList.update k v al) \<subseteq> insert (k, v) (set al)"
  by (induction al) auto

lemma prop_set_values:
  assumes "\<forall>(k', v') \<in> set acc. P v'" and "P v"
  shows "\<forall>(k', v') \<in> set (prop_set acc k v). P v'"
  using assms set_update_subset[of k v acc] by (auto simp: prop_set_def)

lemma prop_get_values:
  assumes "\<forall>(k', v') \<in> set obj. P v'" and "P JUndefined"
  shows "P (prop_get obj k)"
  using assms by (auto simp: prop_get_def split: option.splits dest: map_of_SomeD)

lemma json_value_Inr:
  assumes "typeof v \<noteq> ''object''" and "typeof v \<noteq> ''bigint''"
  shows "\<exists>r. json_value v = Inr r"
proof (cases v)
  case (JNumber n)
  then show ?thesis by (cases n) simp_all
qed (use assms in simp_all)

lemma json_members_Inr:
  assumes "\<forall>k \<in> set ks. \<exists>r. json_value (prop_get obj k) = Inr r"
  shows "\<exists>ms. json_members obj ks = Inr ms"
  using assms
proof (induction ks)
  case Nil
  show ?case by simp
next
  case (Cons k ks)
  then obtain r ms where "json_value (prop_get obj k) = Inr r" "json_members obj ks = Inr ms"
    by auto
  then show ?case by (cases r) simp_all
qed

lemma json_object_Inr:
  assumes "\<forall>(k, v) \<in> set obj. typeof v \<noteq> ''object'' \<and> typeof v \<noteq> ''bigint''"
  shows "\<exists>j. json_object obj = Inr j"
proof -
  have "\<exists>r. json_value (prop_get obj k) = Inr r" for k
  proof -
    have "typeof (prop_get obj k) \<noteq> ''object'' \<and> typeof (prop_get obj k) \<noteq> ''bigint''"
      by (rule prop_get_values[where P = "\<lambda>v. typeof v \<noteq> ''object'' \<and> typeof v \<noteq> ''bigint''"])
        (use assms in auto)
    then show ?thesis by (simp add: json_value_Inr)
  qed
  then obtain ms where "json_members obj (Object_keys obj) = Inr ms"
    using json_members_Inr[of "Object_keys obj" obj] by blast
  then show ?thesis by (simp add: json_object_def)
qed

lemma foldl_prop_set_values:
  assumes "\<forall>(k, v) \<in> set acc. P v"
    and "\<forall>k \<in> set ks. c k \<longrightarrow> P (prop_get options k)"
  shows "\<forall>(k, v) \<in> set (foldl (\<lambda>acc key. if c key then prop_set acc key (prop_get options key)
                                             else acc) acc ks). P v"
  using assms
proof (induction ks arbitrary: acc)
  case Nil
  then show ?case by simp
next
  case (Cons k ks)
  show ?case
  proof (cases "c k")
    case True
    with Cons.prems have "\<forall>(k', v') \<in> set (prop_set acc k (prop_get options k)). P v'"
      by (intro prop_set_values) auto
    moreover from Cons.prems have "\<forall>k \<in> set ks. c k \<longrightarrow> P (prop_get options k)" by simp
    ultimately show ?thesis using Cons.IH True by simp
  next
    case False
    moreover from Cons.prems have "\<forall>k \<in> set ks. c k \<longrightarrow> P (prop_get options k)" by simp
    ultimately show ?thesis using Cons.IH[OF Cons.prems(1)] by simp
  qed
qed

lemma serializableOpts_values:
  assumes "\<And>k. P (prop_get options k) \<or> typeof (prop_get options k) = ''object''
              \<or> typeof (prop_get options k) = ''function''"
  shows "\<forall>(k, v) \<in> set (serializableOpts options). P v"
proof -
  let ?ks = "sort (filter (\<lambda>key. let val = prop_get options key
                             in typeof val \<noteq> ''object'' \<and> typeof val \<noteq> ''function'')
                (Object_keys options))"
  have "\<forall>k \<in> set ?ks. True \<longrightarrow> P (prop_get options k)"
    using assms by (auto simp: Let_def)
  from foldl_prop_set_values[where c = "\<lambda>k. True" and acc = "[]" and P = P, OF _ this]
  show ?thesis by (simp add: serializableOpts_def)
qed

lemma serializableOpts_primitive:
  "\<forall>(k, v) \<in> set (serializableOpts options). typeof v \<noteq> ''object'' \<and> typeof v \<noteq> ''function''"
  by (rule serializableOpts_values) auto

lemma createCacheKey_opts_values:
  assumes "\<And>k. P (prop_get options k) \<or> typeof (prop_get options k) = ''object''
              \<or> typeof (prop_get options k) = ''function''"
  shows "\<forall>(k, v) \<in> set (createCacheKey_opts options). P v"
proof -
  have "\<forall>k \<in> set (sort (Object_keys options)).
      typeof (prop_get options k) \<noteq> ''function'' \<and> typeof (prop_get options k) \<noteq> ''object''
      \<longrightarrow> P (prop_get options k)"
    using assms by auto
  from foldl_prop_set_values[where acc = "[]" and P = P
      and c = "\<lambda>k. typeof (prop_get options k) \<noteq> ''function'' \<and>
                    typeof (prop_get options k) \<noteq> ''object''", OF _ this]
  show ?thesis by (simp add: createCacheKey_opts_def Let_def)
qed

lemma createCacheKey_opts_primitive:
  "\<forall>(k, v) \<in> set (createCacheKey_opts options). typeof v \<noteq> ''object'' \<and> typeof v \<noteq> ''function''"
  by (rule createCacheKey_opts_values) auto

subsection \<open>The result cache key\<close>

lemma createCacheKey_PatternString:
  "createCacheKey (PatternString p) cwd (WithProperties props) s =
     (case json_object (createCacheKey_opts props) of
        Inl e \<Rightarrow> Inl e
      | Inr optsJson \<Rightarrow>
          Inr (''{'' @ join '','' [json_quote ''patterns'' @ '':'' @ json_quote p,
                                    json_quote ''cwd'' @ '':'' @ json_quote cwd,
                                    json_quote ''opts'' @ '':'' @ optsJson] @ ''}''),
      s)"
  by (simp add: createCacheKey_def Let_def split: sum.splits)

lemma createCacheKey_PatternString_null:
  "createCacheKey (PatternString p) cwd NullOrUndefined s =
     (Inl (TypeError ''Cannot convert undefined or null to object''), s)"
  by (simp add: createCacheKey_def)

lemma createCacheKey_PatternArray:
  "createCacheKey (PatternArray r) cwd options s =
     (fst (createCacheKey (PatternString (join ''|'' (sort (arrays s r)))) cwd options s),
      array_assign r (sort (arrays s r)) s)"
  by (simp add: createCacheKey_def Let_def split: sum.splits options_arg.splits)

lemma createCacheKey_PatternString_state:
  "fst (createCacheKey (PatternString p) cwd options s) =
   fst (createCacheKey (PatternString p) cwd options s')"
  by (cases options) (simp_all add: createCacheKey_PatternString createCacheKey_PatternString_null)

lemma sort_permutation:
  fixes xs ys :: "string list"
  assumes "mset xs = mset ys"
  shows "sort xs = sort ys"
  by (rule properties_for_sort) (simp_all add: assms)

lemma createCacheKey_Inr:
  assumes "\<forall>(k, v) \<in> set props. typeof v \<noteq> ''bigint''"
  shows "\<exists>key. fst (createCacheKey pattern cwd (WithProperties props) s) = Inr key"
proof -
  have "typeof (prop_get props k) \<noteq> ''bigint''" for k
    by (rule prop_get_values[where P = "\<lambda>v. typeof v \<noteq> ''bigint''"]) (use assms in auto)
  then have "\<forall>(k, v) \<in> set (createCacheKey_opts props).
      typeof v \<noteq> ''object'' \<and> typeof v \<noteq> ''bigint''"
    by (intro createCacheKey_opts_values) auto
  then obtain j where "json_object (createCacheKey_opts props) = Inr j"
    using json_object_Inr by blast
  then show ?thesis
    by (cases pattern) (simp_all add: createCacheKey_PatternString createCacheKey_PatternArray)
qed

lemma createCacheKey_no_options:
  "fst (createCacheKey (PatternString p) cwd (WithProperties []) s) =
     Inr (''{'' @ json_quote ''patterns'' @ '':'' @ json_quote p @ '','' @
          json_quote ''cwd'' @ '':'' @ json_quote cwd @ '','' @ json_quote ''opts'' @ '':{}}'')"
  by (simp add: createCacheKey_PatternString createCacheKey_opts_def Object_keys_def
      json_object_def)

lemma sort_b_a: "sort [''b'', ''a''] = [''a'', ''b'']"
  by code_simp

lemma sort_a_b: "sort [''a'', ''b''] = [''a'', ''b'']"
  by code_simp

text \<open>
  Claim C6. When two arrays hold the same strings in different orders, \<^verbatim>\<open>createCacheKey\<close>
  has the same outcome for both, whatever the working directory and the options value.
  The outcome is a key whenever the options are an object none of whose values is a
  BigInt (on \<^verbatim>\<open>null\<close>, \<^verbatim>\<open>undefined\<close> or a BigInt value both calls throw the same
  \<^verbatim>\<open>TypeError\<close>). In particular \<^verbatim>\<open>['b', 'a']\<close> and \<^verbatim>\<open>['a', 'b']\<close> with the options
  \<^verbatim>\<open>{}\<close> both give the key whose patterns are \<^verbatim>\<open>a|b\<close>.
\<close>

theorem createCacheKey_order_invariant:
  "(mset (arrays s1 r1) = mset (arrays s2 r2) \<longrightarrow>
      fst (createCacheKey (PatternArray r1) cwd options s1) =
      fst (createCacheKey (PatternArray r2) cwd options s2))
   \<and> ((\<forall>(k, v) \<in> set props. typeof v \<noteq> ''bigint'') \<longrightarrow>
        (\<exists>key. fst (createCacheKey (PatternArray r1) cwd (WithProperties props) s1) = Inr key))
   \<and> (arrays s1 r1 = [''b'', ''a''] \<and> arrays s2 r2 = [''a'', ''b''] \<longrightarrow>
        fst (createCacheKey (PatternArray r1) cwd (WithProperties []) s1) =
          Inr (''{'' @ json_quote ''patterns'' @ '':'' @ json_quote ''a|b'' @ '','' @
               json_quote ''cwd'' @ '':'' @ json_quote cwd @ '','' @
               json_quote ''opts'' @ '':{}}'') \<and>
        fst (createCacheKey (PatternArray r2) cwd (WithProperties []) s2) =
          fst (createCacheKey (PatternArray r1) cwd (WithProperties []) s1))"
proof (intro conjI impI)
  assume "mset (arrays s1 r1) = mset (arrays s2 r2)"
  then have "sort (arrays s1 r1) = sort (arrays s2 r2)" by (rule sort_permutation)
  then show "fst (createCacheKey (PatternArray r1) cwd options s1) =
      fst (createCacheKey (PatternArray r2) cwd options s2)"
    using createCacheKey_PatternString_state[of _ cwd options s1 s2]
    by (simp add: createCacheKey_PatternArray)
next
  assume "\<forall>(k, v) \<in> set props. typeof v \<noteq> ''bigint''"
  then show "\<exists>key. fst (createCacheKey (PatternArray r1) cwd (WithProperties props) s1) = Inr key"
    by (rule createCacheKey_Inr)
next
  assume a: "arrays s1 r1 = [''b'', ''a''] \<and> arrays s2 r2 = [''a'', ''b'']"
  then show k1: "fst (createCacheKey (PatternArray r1) cwd (WithProperties []) s1) =
          Inr (''{'' @ json_quote ''patterns'' @ '':'' @ json_quote ''a|b'' @ '','' @
               json_quote ''cwd'' @ '':'' @ json_quote cwd @ '','' @
               json_quote ''opts'' @ '':{}}'')"
    by (simp add: createCacheKey_PatternArray sort_b_a createCacheKey_no_options)
  from a have "fst (createCacheKey (PatternArray r2) cwd (WithProperties []) s2) =
          Inr (''{'' @ json_quote ''patterns'' @ '':'' @ json_quote ''a|b'' @ '','' @
               json_quote ''cwd'' @ '':'' @ json_quote cwd @ '','' @
               json_quote ''opts'' @ '':{}}'')"
    by (simp add: createCacheKey_PatternArray sort_a_b createCacheKey_no_options)
  with k1 show "fst (createCacheKey (PatternArray r2) cwd (WithProperties []) s2) =
          fst (createCacheKey (PatternArray r1) cwd (WithProperties []) s1)"
    by simp
qed

theorem createCacheKey_order_invariant_witness:
  "fst (createCacheKey (PatternArray 0) ''/w'' (WithProperties [(''dot'', JBoolean True)])
          (snd (new_array [''b'', ''a''] initial_state))) =
   fst (createCacheKey (PatternArray 0) ''/w'' (WithProperties [(''dot'', JBoolean True)])
          (snd (new_array [''a'', ''b''] initial_state)))
   \<and> (\<exists>key. fst (createCacheKey (PatternArray 0) ''/w'' (WithProperties [(''dot'', JBoolean True)])
          (snd (new_array [''b'', ''a''] initial_state))) = Inr key)
   \<and> fst (createCacheKey (PatternArray 0) ''/w'' (WithProperties [])
          (snd (new_array [''a'', ''b''] initial_state))) =
     fst (createCacheKey (PatternArray 0) ''/w'' (WithProperties [])
          (snd (new_array [''b'', ''a''] initial_state)))"
proof -
  define sba where "sba = snd (new_array [''b'', ''a''] initial_state)"
  define sab where "sab = snd (new_array [''a'', ''b''] initial_state)"
  have ba: "arrays sba 0 = [''b'', ''a'']" and ab: "arrays sab 0 = [''a'', ''b'']"
    by (simp_all add: sba_def sab_def new_array_def initial_state_def)
  have perm: "mset (arrays sba 0) = mset (arrays sab 0)"
    by (simp add: ba ab)
  have nobig: "\<forall>(k, v) \<in> set [(''dot'', JBoolean True)]. typeof v \<noteq> ''bigint''"
    by simp
  have "fst (createCacheKey (PatternArray 0) ''/w'' (WithProperties [(''dot'', JBoolean True)]) sba) =
        fst (createCacheKey (PatternArray 0) ''/w'' (WithProperties [(''dot'', JBoolean True)]) sab)"
    and "\<exists>key. fst (createCacheKey (PatternArray 0) ''/w'' (WithProperties [(''dot'', JBoolean True)]) sba) = Inr key"
    using createCacheKey_order_invariant[of sba 0 sab 0 "''/w''"
        "WithProperties [(''dot'', JBoolean True)]" "[(''dot'', JBoolean True)]"]
      perm nobig by blast+
  moreover have "fst (createCacheKey (PatternArray 0) ''/w'' (WithProperties []) sab) =
        fst (createCacheKey (PatternArray 0) ''/w'' (WithProperties []) sba)"
    using createCacheKey_order_invariant[of sba 0 sab 0 "''/w''" NullOrUndefined "[]"] ba ab by blast
  ultimately show ?thesis unfolding sba_def sab_def by blast
qed

text \<open>
  Repeated calls agree: a second call with the same arguments, in the state the first call
  left, has the same outcome as the first.
\<close>

lemma createCacheKey_repeatable:
  "fst (createCacheKey pattern cwd options (snd (createCacheKey pattern cwd options s))) =
   fst (createCacheKey pattern cwd options s)"
proof (cases pattern)
  case (PatternString p)
  then show ?thesis using createCacheKey_PatternString_state by simp
next
  case (PatternArray r)
  have "sort (sort (arrays s r)) = sort (arrays s r)"
    by (simp add: sorted_sort_id)
  then show ?thesis
    using createCacheKey_PatternString_state[of _ cwd options "array_assign r (sort (arrays s r)) s" s]
    by (simp add: PatternArray createCacheKey_PatternArray array_assign_def)
qed

lemma createCacheKey_array_afterwards:
  "arrays (snd (createCacheKey (PatternArray r) cwd options s)) r = sort (arrays s r)"
  by (simp add: createCacheKey_PatternArray array_assign_def)

text \<open>
  Claim C3 says that \<^verbatim>\<open>createCacheKey\<close> leaves its arguments as they were. It sorts the
  array it is given in place: at \<^verbatim>\<open>createCacheKey(['b', 'a'], '/', {})\<close> the array
  passed in (reference 0) is \<^verbatim>\<open>['b', 'a']\<close> before the call and \<^verbatim>\<open>['a', 'b']\<close>
  after it.
\<close>

theorem createCacheKey_sorts_argument_in_place:
  "arrays (snd (new_array [''b'', ''a''] initial_state)) 0 = [''b'', ''a'']
   \<and> arrays (snd (createCacheKey (PatternArray 0) ''/'' (WithProperties [])
                (snd (new_array [''b'', ''a''] initial_state)))) 0 = [''a'', ''b'']"
  by (simp add: createCacheKey_array_afterwards new_array_def initial_state_def sort_b_a)

subsection \<open>The pattern cache key\<close>

lemma Object_keys_mset: "mset (Object_keys obj) = mset (map fst obj)"
  by (simp add: Object_keys_def Let_def)

lemma Object_keys_set: "set (Object_keys obj) = fst ` set obj"
  using Object_keys_mset[of obj] by (metis mset_eq_setD set_map)

lemma Object_keys_distinct: "wf_object obj \<Longrightarrow> distinct (Object_keys obj)"
  using Object_keys_mset[of obj] by (metis wf_object_def mset_eq_imp_distinct_iff)

lemma prop_get_own:
  "wf_object obj \<Longrightarrow> (k, v) \<in> set obj \<Longrightarrow> prop_get obj k = v"
  by (simp add: prop_get_def wf_object_def)

lemma serializable_keys_eq:
  assumes wf: "wf_object o1" "wf_object o2"
    and same: "set (filter (\<lambda>(k, v). typeof v \<noteq> ''object'' \<and> typeof v \<noteq> ''function'') o1) =
               set (filter (\<lambda>(k, v). typeof v \<noteq> ''object'' \<and> typeof v \<noteq> ''function'') o2)"
  shows "sort (filter (\<lambda>key. let val = prop_get o1 key
                             in typeof val \<noteq> ''object'' \<and> typeof val \<noteq> ''function'')
                (Object_keys o1)) =
         sort (filter (\<lambda>key. let val = prop_get o2 key
                             in typeof val \<noteq> ''object'' \<and> typeof val \<noteq> ''function'')
                (Object_keys o2))"
    (is "sort (filter ?P1 _) = sort (filter ?P2 _)")
proof -
  have keys: "set (filter (\<lambda>key. let val = prop_get obj key
                             in typeof val \<noteq> ''object'' \<and> typeof val \<noteq> ''function'')
                (Object_keys obj)) =
      fst ` set (filter (\<lambda>(k, v). typeof v \<noteq> ''object'' \<and> typeof v \<noteq> ''function'') obj)"
    if "wf_object obj" for obj
    using prop_get_own[OF that] by (force simp: Object_keys_set Let_def image_iff)
  have "set (filter ?P1 (Object_keys o1)) = set (filter ?P2 (Object_keys o2))"
    unfolding keys[OF wf(1)] keys[OF wf(2)] same ..
  moreover have "distinct (filter ?P1 (Object_keys o1))" "distinct (filter ?P2 (Object_keys o2))"
    using wf by (simp_all add: Object_keys_distinct)
  ultimately show ?thesis
    by (intro sorted_distinct_set_unique) simp_all
qed

lemma serializable_values_eq:
  assumes wf: "wf_object o1" "wf_object o2"
    and same: "set (filter (\<lambda>(k, v). typeof v \<noteq> ''object'' \<and> typeof v \<noteq> ''function'') o1) =
               set (filter (\<lambda>(k, v). typeof v \<noteq> ''object'' \<and> typeof v \<noteq> ''function'') o2)"
    and key: "key \<in> set (Object_keys o1)"
      "typeof (prop_get o1 key) \<noteq> ''object''" "typeof (prop_get o1 key) \<noteq> ''function''"
  shows "prop_get o2 key = prop_get o1 key"
proof -
  from key(1) obtain v where v: "(key, v) \<in> set o1" by (auto simp: Object_keys_set)
  with wf(1) have g: "prop_get o1 key = v" by (rule prop_get_own)
  with key v have "(key, v) \<in> set (filter (\<lambda>(k, v). typeof v \<noteq> ''object'' \<and> typeof v \<noteq> ''function'') o1)"
    by simp
  with same have "(key, v) \<in> set o2" by simp
  with wf(2) have "prop_get o2 key = v" by (rule prop_get_own)
  with g show ?thesis by simp
qed

lemma serializableOpts_cong:
  assumes wf: "wf_object o1" "wf_object o2"
    and same: "set (filter (\<lambda>(k, v). typeof v \<noteq> ''object'' \<and> typeof v \<noteq> ''function'') o1) =
               set (filter (\<lambda>(k, v). typeof v \<noteq> ''object'' \<and> typeof v \<noteq> ''function'') o2)"
  shows "serializableOpts o1 = serializableOpts o2"
proof -
  let ?ks = "sort (filter (\<lambda>key. let val = prop_get o1 key
                             in typeof val \<noteq> ''object'' \<and> typeof val \<noteq> ''function'')
                (Object_keys o1))"
  have "foldl (\<lambda>acc key. prop_set acc key (prop_get o1 key)) acc ks =
        foldl (\<lambda>acc key. prop_set acc key (prop_get o2 key)) acc ks"
    if "\<forall>k \<in> set ks. prop_get o2 k = prop_get o1 k" for acc ks
    using that by (induction ks arbitrary: acc) simp_all
  moreover have "\<forall>k \<in> set ?ks. prop_get o2 k = prop_get o1 k"
    using serializable_values_eq[OF wf same] by (auto simp: Let_def)
  ultimately have "foldl (\<lambda>acc key. prop_set acc key (prop_get o1 key)) [] ?ks =
        foldl (\<lambda>acc key. prop_set acc key (prop_get o2 key)) [] ?ks"
    by blast
  then show ?thesis
    unfolding serializableOpts_def serializable_keys_eq[OF wf same, symmetric] .
qed

lemma cacheKey_cong:
  assumes "wf_object o1" "wf_object o2"
    and "set (filter (\<lambda>(k, v). typeof v \<noteq> ''object'' \<and> typeof v \<noteq> ''function'') o1) =
         set (filter (\<lambda>(k, v). typeof v \<noteq> ''object'' \<and> typeof v \<noteq> ''function'') o2)"
  shows "cacheKey pattern o1 = cacheKey pattern o2"
  by (simp add: cacheKey_def serializableOpts_cong[OF assms])

lemma getCachedPattern_second_call:
  assumes "cacheKey pattern o2 = cacheKey pattern o1"
    and "getCachedPattern engine pattern o1 s = (Inr m, s1)"
  shows "getCachedPattern engine' pattern o2 s1 = (Inr m, s1)"
proof -
  from getCachedPattern_Inr[OF assms(2)] obtain key
    where "cacheKey pattern o1 = Inr key" "fmlookup (patternCache s1) key = Some m" by blast
  with assms(1) show ?thesis by (simp add: getCachedPattern_hit)
qed

lemma cacheKey_Inr:
  assumes "\<forall>(k, v) \<in> set options. typeof v \<noteq> ''bigint''"
  shows "\<exists>key. cacheKey pattern options = Inr key"
proof -
  have "typeof (prop_get options k) \<noteq> ''bigint''" for k
    by (rule prop_get_values[where P = "\<lambda>v. typeof v \<noteq> ''bigint''"]) (use assms in auto)
  then have "\<forall>(k, v) \<in> set (serializableOpts options).
      typeof v \<noteq> ''object'' \<and> typeof v \<noteq> ''bigint''"
    by (intro serializableOpts_values) auto
  then obtain j where "json_object (serializableOpts options) = Inr j"
    using json_object_Inr by blast
  then show ?thesis by (simp add: cacheKey_def)
qed

lemma getCachedPattern_first_call:
  assumes "cacheKey pattern options = Inr key"
  shows "\<exists>m. getCachedPattern (\<lambda>p opts. None) pattern options initial_state =
     (Inr m, initial_state\<lparr>constructed := [(pattern, options)], next_ref := 1,
                           patternCache := fmupd key m fmempty\<rparr>)"
  using assms by (simp add: getCachedPattern_def new_Minimatch_def initial_state_def)

text \<open>
  Claim C5. Take two option structures with the same fields among those whose values are
  neither object-typed nor function-typed: they may list their keys in different orders,
  and they may differ in any field whose value is an object or a function. Then
  \<^verbatim>\<open>getCachedPattern\<close> derives the same key for both, and when a call with the first has
  returned a matcher, a call with the second returns that same instance and leaves the
  state, and so the size of the pattern cache, as it was.
\<close>

theorem getCachedPattern_key_invariance:
  assumes "wf_object o1" and "wf_object o2"
    and "set (filter (\<lambda>(k, v). typeof v \<noteq> ''object'' \<and> typeof v \<noteq> ''function'') o1) =
         set (filter (\<lambda>(k, v). typeof v \<noteq> ''object'' \<and> typeof v \<noteq> ''function'') o2)"
  shows "cacheKey pattern o1 = cacheKey pattern o2 \<and>
         (getCachedPattern engine pattern o1 s = (Inr m, s1) \<longrightarrow>
            getCachedPattern engine pattern o2 s1 = (Inr m, s1) \<and>
            getPatternCacheSize (snd (getCachedPattern engine pattern o2 s1)) =
              getPatternCacheSize s1)"
proof -
  have k: "cacheKey pattern o1 = cacheKey pattern o2"
    using assms by (rule cacheKey_cong)
  then have "getCachedPattern engine pattern o2 s1 = (Inr m, s1)"
    if "getCachedPattern engine pattern o1 s = (Inr m, s1)"
    using getCachedPattern_second_call[OF _ that] by simp
  with k show ?thesis by simp
qed

theorem getCachedPattern_key_invariance_witness:
  "fst (getCachedPattern (\<lambda>p opts. None) ''*.js''
          [(''dot'', JBoolean False), (''cb'', JFunction 2), (''nocase'', JBoolean True)]
          (snd (getCachedPattern (\<lambda>p opts. None) ''*.js''
             [(''nocase'', JBoolean True), (''fs'', JObject 1), (''dot'', JBoolean False)]
             initial_state))) =
   fst (getCachedPattern (\<lambda>p opts. None) ''*.js''
          [(''nocase'', JBoolean True), (''fs'', JObject 1), (''dot'', JBoolean False)]
          initial_state)
   \<and> (\<exists>m. fst (getCachedPattern (\<lambda>p opts. None) ''*.js''
          [(''nocase'', JBoolean True), (''fs'', JObject 1), (''dot'', JBoolean False)]
          initial_state) = Inr m)
   \<and> getPatternCacheSize (snd (getCachedPattern (\<lambda>p opts. None) ''*.js''
          [(''dot'', JBoolean False), (''cb'', JFunction 2), (''nocase'', JBoolean True)]
          (snd (getCachedPattern (\<lambda>p opts. None) ''*.js''
             [(''nocase'', JBoolean True), (''fs'', JObject 1), (''dot'', JBoolean False)]
             initial_state)))) = 1"
proof -
  define o1 where "o1 = [(''nocase'', JBoolean True), (''fs'', JObject 1), (''dot'', JBoolean False)]"
  define o2 where "o2 = [(''dot'', JBoolean False), (''cb'', JFunction 2), (''nocase'', JBoolean True)]"
  have wf: "wf_object o1" "wf_object o2"
    by (simp_all add: o1_def o2_def wf_object_def)
  have same: "set (filter (\<lambda>(k, v). typeof v \<noteq> ''object'' \<and> typeof v \<noteq> ''function'') o1) =
         set (filter (\<lambda>(k, v). typeof v \<noteq> ''object'' \<and> typeof v \<noteq> ''function'') o2)"
    by (auto simp: o1_def o2_def)
  obtain key where "cacheKey ''*.js'' o1 = Inr key"
    using cacheKey_Inr[of o1 "''*.js''"] by (auto simp: o1_def)
  from getCachedPattern_first_call[OF this] obtain m s1
    where first: "getCachedPattern (\<lambda>p opts. None) ''*.js'' o1 initial_state = (Inr m, s1)"
      and size: "getPatternCacheSize s1 = 1"
    by (auto simp: getPatternCacheSize_def map_size_def fcard_finsert_if fcard_fempty)
  have "getCachedPattern (\<lambda>p opts. None) ''*.js'' o2 s1 = (Inr m, s1)"
    using getCachedPattern_key_invariance[OF wf same, of "''*.js''" "\<lambda>p opts. None" initial_state m s1]
      first by blast
  with first size show ?thesis
    unfolding o1_def[symmetric] o2_def[symmetric] by simp
qed

text \<open>
  Claim C10. \<^verbatim>\<open>typeof null\<close> is \<^verbatim>\<open>'object'\<close>, so the filter of \<^verbatim>\<open>getCachedPattern\<close>
  drops a field whose value is \<^verbatim>\<open>null\<close>. For options \<open>xs @ ys\<close> and a field name
  \<open>f\<close> they do not have, adding \<open>f\<close> with the value \<^verbatim>\<open>null\<close> (at any place in the key
  order) gives the same key; and when a call with the plain options has returned a
  matcher, a call with the extended options returns that same instance without adding an
  entry to the pattern cache.
\<close>

theorem getCachedPattern_null_field_ignored:
  assumes "wf_object (xs @ ys)" and "f \<notin> fst ` set (xs @ ys)"
  shows "cacheKey pattern (xs @ (f, JNull) # ys) = cacheKey pattern (xs @ ys) \<and>
         (getCachedPattern engine pattern (xs @ ys) s = (Inr m, s1) \<longrightarrow>
            getCachedPattern engine pattern (xs @ (f, JNull) # ys) s1 = (Inr m, s1) \<and>
            getPatternCacheSize (snd (getCachedPattern engine pattern (xs @ (f, JNull) # ys) s1)) =
              getPatternCacheSize s1)"
proof -
  have wf: "wf_object (xs @ (f, JNull) # ys)"
    using assms by (auto simp: wf_object_def)
  have "set (filter (\<lambda>(k, v). typeof v \<noteq> ''object'' \<and> typeof v \<noteq> ''function'')
              (xs @ (f, JNull) # ys)) =
        set (filter (\<lambda>(k, v). typeof v \<noteq> ''object'' \<and> typeof v \<noteq> ''function'') (xs @ ys))"
    by simp
  with wf assms(1) have k: "cacheKey pattern (xs @ (f, JNull) # ys) = cacheKey pattern (xs @ ys)"
    by (rule cacheKey_cong)
  then have "getCachedPattern engine pattern (xs @ (f, JNull) # ys) s1 = (Inr m, s1)"
    if "getCachedPattern engine pattern (xs @ ys) s = (Inr m, s1)"
    using getCachedPattern_second_call[OF _ that] by simp
  with k show ?thesis by simp
qed

theorem getCachedPattern_null_field_ignored_witness:
  "cacheKey ''*.js'' [(''dot'', JBoolean True), (''signal'', JNull)] =
   cacheKey ''*.js'' [(''dot'', JBoolean True)]
   \<and> fst (getCachedPattern (\<lambda>p opts. None) ''*.js'' [(''dot'', JBoolean True), (''signal'', JNull)]
          (snd (getCachedPattern (\<lambda>p opts. None) ''*.js'' [(''dot'', JBoolean True)]
             initial_state))) =
     fst (getCachedPattern (\<lambda>p opts. None) ''*.js'' [(''dot'', JBoolean True)] initial_state)
   \<and> (\<exists>m. fst (getCachedPattern (\<lambda>p opts. None) ''*.js'' [(''dot'', JBoolean True)]
          initial_state) = Inr m)
   \<and> getPatternCacheSize (snd (getCachedPattern (\<lambda>p opts. None) ''*.js''
          [(''dot'', JBoolean True), (''signal'', JNull)]
          (snd (getCachedPattern (\<lambda>p opts. None) ''*.js'' [(''dot'', JBoolean True)]
             initial_state)))) = 1"
proof -
  have wf: "wf_object ([(''dot'', JBoolean True)] @ [])"
    by (simp add: wf_object_def)
  have new: "''signal'' \<notin> fst ` set ([(''dot'', JBoolean True)] @ [])"
    by simp
  note inst = getCachedPattern_null_field_ignored[OF wf new, of "''*.js''" "\<lambda>p opts. None" initial_state]
  obtain key where "cacheKey ''*.js'' [(''dot'', JBoolean True)] = Inr key"
    using cacheKey_Inr[of "[(''dot'', JBoolean True)]" "''*.js''"] by auto
  from getCachedPattern_first_call[OF this] obtain m s1
    where first: "getCachedPattern (\<lambda>p opts. None) ''*.js'' [(''dot'', JBoolean True)] initial_state
        = (Inr m, s1)"
      and size: "getPatternCacheSize s1 = 1"
    by (auto simp: getPatternCacheSize_def map_size_def fcard_finsert_if fcard_fempty)
  have "cacheKey ''*.js'' [(''dot'', JBoolean True), (''signal'', JNull)] =
      cacheKey ''*.js'' [(''dot'', JBoolean True)]"
    using inst[of m s1] by simp
  moreover have "getCachedPattern (\<lambda>p opts. None) ''*.js''
      [(''dot'', JBoolean True), (''signal'', JNull)] s1 = (Inr m, s1)"
    using inst[of m s1] first by simp
  ultimately show ?thesis using first size by simp
qed

subsection \<open>Further checks of the model\<close>

text \<open>
  The fast path on the usual extension patterns; \<^verbatim>\<open>clearAllCaches\<close> leaves three empty
  tables; a value stored under one kind is not found under the other.
\<close>

lemma fast_path_examples:
  "isSimplePattern ''*.js''"
  "fastPathMatch ''*.js'' ''a/b/c.js'' = Some True"
  "fastPathMatch ''*.js'' ''c.ts'' = Some False"
  "fastPathMatch ''**.ts'' ''deep/nested/f.ts'' = Some True"
  by code_simp+

lemma clearAllCaches_empties:
  "getCacheStats (clearAllCaches s) =
     \<lparr>patternCacheSize = 0, resultCacheSize = 0, statCacheSize = 0\<rparr>"
  by (simp add: getCacheStats_def clearAllCaches_def clearStatCache_def clearResultCache_def
      clearPatternCache_def getPatternCacheSize_def getResultCacheSize_def getStatCacheSize_def
      map_size_def)

lemma stat_kinds_do_not_alias:
  "fmlookup (statCache s) (stat_key (Some stat) p) = None \<Longrightarrow>
     getCachedStat p (Some stat) (setCachedStat p v (Some lstat) s) = JNull"
  by (simp add: getCachedStat_def setCachedStat_lookup stat_key_eq_iff statType_or_default_def
      Let_def)

end
